theory Spec2Isabelle
  imports Main "HOL-Library.Sublist" "HOL-Library.Multiset" "HOL-Library.Word"
begin

section \<open>Data model\<close>

text \<open>
  The notebook \<^verbatim>\<open>Getting-higher-res-images.ipynb\<close> reads a \<^verbatim>\<open>tiles.json\<close> document of the shape
  \<^verbatim>\<open>{"levels": [{"name", "width", "height", "tiles": [{"url", "x", "y"}]}]}\<close>.
  The parsed document is modelled with one record per JSON object; JSON integers are
  Python's unbounded integers, hence \<open>int\<close>.
\<close>

record tile =
  tile_url :: string
  tile_x :: int
  tile_y :: int

record level =
  level_name :: string
  level_width :: int
  level_height :: int
  level_tiles :: "tile list"

record descriptor =
  levels :: "level list"

text \<open>
  A raster as PIL exposes it: its \<^verbatim>\<open>size\<close> and the pixel at each coordinate. Only the
  coordinates \<open>0 \<le> i < size_w\<close>, \<open>0 \<le> j < size_h\<close> belong to the image; the statements
  below read \<open>px\<close> at such coordinates only.
\<close>

type_synonym rgb = "8 word \<times> 8 word \<times> 8 word"

record image =
  size_w :: int
  size_h :: int
  px :: "int \<Rightarrow> int \<Rightarrow> rgb"

record response =
  status_code :: int
  content :: "8 word list"

text \<open>The Python exceptions that can end a run of the notebook's code.\<close>

datatype error =
  RequestException string
  | JSONDecodeError
  | UnidentifiedImageError
  | UnboundLocalError string
  | AttributeError
  | ValueError
  | OverflowError
  | MemoryError
  | OSError

text \<open>
  The collaborators the notebook imports, and what of them the model leaves open:
  \<^item> \<^verbatim>\<open>requests.get\<close>, which raises on a network error or a timeout and otherwise returns
    the response, whatever its status;
  \<^item> \<^verbatim>\<open>response.json()\<close> and \<^verbatim>\<open>Image.open(BytesIO(...))\<close> (the decoding that PIL defers to
    the first use of the raster is counted with the opening);
  \<^item> \<open>alloc_error\<close>: the error, if any, that \<^verbatim>\<open>Image.new\<close> raises for a size it accepts as
    arguments but cannot allocate on this machine;
  \<^item> \<open>img_save\<close>: the error, if any, that \<^verbatim>\<open>img.save(image_name)\<close> raises (an empty canvas,
    a canvas beyond what the JPEG format holds, a disk that cannot be written);
  \<^item> \<open>slugify_prepare\<close>: the first half of \<^verbatim>\<open>slugify\<close> (quotes, transliteration, HTML
    character references, lower-casing, commas in numbers) on the texts for which it
    needs the Unicode and HTML tables.
\<close>

record env =
  requests_get :: "string \<Rightarrow> error + response"
  response_json :: "response \<Rightarrow> error + descriptor"
  Image_open :: "8 word list \<Rightarrow> error + image"
  alloc_error :: "int \<times> int \<Rightarrow> error option"
  img_save :: "image \<Rightarrow> string \<Rightarrow> error option"
  slugify_prepare :: "string \<Rightarrow> string"

text \<open>
  What the notebook does to the outside world, in order: the requests it sends, the call
  \<^verbatim>\<open>img.save(image_name)\<close> with the canvas it passes (recorded whether or not the call then
  raises), and the two \<^verbatim>\<open>display\<close> calls.
\<close>

datatype event =
  Get string
  | Save string image
  | FileLink string
  | HTML string

fun requested :: "event list \<Rightarrow> string list" where
  "requested [] = []"
| "requested (Get u # evs) = u # requested evs"
| "requested (_ # evs) = requested evs"

fun saved_files :: "event list \<Rightarrow> string list" where
  "saved_files [] = []"
| "saved_files (Save n _ # evs) = n # saved_files evs"
| "saved_files (_ # evs) = saved_files evs"

fun saved_images :: "event list \<Rightarrow> image list" where
  "saved_images [] = []"
| "saved_images (Save _ im # evs) = im # saved_images evs"
| "saved_images (_ # evs) = saved_images evs"

section \<open>PIL and string primitives\<close>

text \<open>
  The integers PIL's C functions accept as arguments: those of a signed 32-bit \<^verbatim>\<open>int\<close>.
  Any other argument raises \<^verbatim>\<open>OverflowError\<close>.
\<close>

definition c_int :: "int \<Rightarrow> bool" where
  "c_int v \<longleftrightarrow> - 2147483648 \<le> v \<and> v \<le> 2147483647"

text \<open>
  \<^verbatim>\<open>Image.new('RGB', (w, h))\<close>: a negative side raises \<^verbatim>\<open>ValueError\<close>, a side that is no C
  \<^verbatim>\<open>int\<close> raises \<^verbatim>\<open>OverflowError\<close>, the allocation may fail, and otherwise the result is a
  black raster of that size.
\<close>

definition Image_new :: "env \<Rightarrow> int \<times> int \<Rightarrow> error + image" where
  "Image_new env sz =
     (case sz of (w, h) \<Rightarrow>
        if w < 0 \<or> h < 0 then Inl ValueError
        else if \<not> c_int w \<or> \<not> c_int h then Inl OverflowError
        else (case alloc_error env (w, h) of
                Some e \<Rightarrow> Inl e
              | None \<Rightarrow> Inr \<lparr>size_w = w, size_h = h, px = (\<lambda>i j. (0, 0, 0))\<rparr>))"

text \<open>
  What a successful \<^verbatim>\<open>img.paste(im, box=(x, y))\<close> does: the source raster is copied with its
  upper left corner at \<open>(x, y)\<close>, and the copied region is clipped to the destination.
\<close>

definition clip_copy :: "image \<Rightarrow> image \<Rightarrow> int \<times> int \<Rightarrow> image" where
  "clip_copy img im box =
     (case box of (x, y) \<Rightarrow>
        img\<lparr>px := (\<lambda>i j.
          if 0 \<le> i \<and> i < size_w img \<and> 0 \<le> j \<and> j < size_h img
             \<and> x \<le> i \<and> i < x + size_w im \<and> y \<le> j \<and> j < y + size_h im
          then px im (i - x) (j - y) else px img i j)\<rparr>)"

text \<open>
  \<^verbatim>\<open>img.paste(im, box=(x, y))\<close>: PIL completes the box with its lower right corner
  \<open>(x + im.width, y + im.height)\<close> and passes the four numbers to C; \<^verbatim>\<open>OverflowError\<close> is
  raised when one of them is no C \<^verbatim>\<open>int\<close>.
\<close>

definition paste :: "image \<Rightarrow> image \<Rightarrow> int \<times> int \<Rightarrow> error + image" where
  "paste img im box =
     (case box of (x, y) \<Rightarrow>
        if c_int x \<and> c_int y \<and> c_int (x + size_w im) \<and> c_int (y + size_h im)
        then Inr (clip_copy img im box) else Inl OverflowError)"

text \<open>\<^verbatim>\<open>s.rstrip(c)\<close> for a single character.\<close>

definition rstrip :: "char \<Rightarrow> string \<Rightarrow> string" where
  "rstrip c s = rev (dropWhile (\<lambda>a. a = c) (rev s))"

text \<open>
  \<^verbatim>\<open>re.search(r'resource\/(.*)', url)\<close> followed by \<^verbatim>\<open>.group(1)\<close>: the leftmost occurrence of
  \<^verbatim>\<open>resource/\<close>, and after it everything up to the first line feed. \<open>None\<close> is the
  \<^verbatim>\<open>None\<close> that \<^verbatim>\<open>re.search\<close> returns when there is no match.
\<close>

fun re_search :: "string \<Rightarrow> string option" where
  "re_search [] = None"
| "re_search (c # cs) =
     (if prefix ''resource/'' (c # cs)
      then Some (takeWhile (\<lambda>a. a \<noteq> CHR 0x0A) (drop 9 (c # cs)))
      else re_search cs)"

subsection \<open>slugify\<close>

text \<open>
  \<^verbatim>\<open>slugify(text)\<close> of the package python-slugify, with its default arguments, works in two
  halves. The first half replaces runs of apostrophes by a hyphen, transliterates to
  ASCII, decodes HTML character references, lower-cases, and removes apostrophes and the
  commas inside numbers. On a text of printable ASCII characters without ampersand,
  apostrophe and comma all of this comes down to lower-casing; for any other text the
  first half is the parameter \<open>slugify_prepare\<close>. The second half replaces every run of
  characters other than letters, digits and hyphens by one hyphen
  (\<^verbatim>\<open>re.sub(r'[^-a-zA-Z0-9]+', '-', text)\<close>), every run of hyphens by one hyphen
  (\<^verbatim>\<open>-{2,}\<close>), and strips the hyphens at both ends.
\<close>

definition plain_char :: "char \<Rightarrow> bool" where
  "plain_char c \<longleftrightarrow>
     32 \<le> (of_char c :: nat) \<and> (of_char c :: nat) \<le> 126 \<and>
     c \<noteq> CHR 0x26 \<and> c \<noteq> CHR 0x27 \<and> c \<noteq> CHR 0x2C"

definition lower_ascii :: "char \<Rightarrow> char" where
  "lower_ascii c =
     (case map_of (zip ''ABCDEFGHIJKLMNOPQRSTUVWXYZ'' ''abcdefghijklmnopqrstuvwxyz'') c of
        Some l \<Rightarrow> l
      | None \<Rightarrow> c)"

definition slug_char :: "char \<Rightarrow> bool" where
  "slug_char c \<longleftrightarrow>
     c \<in> set ''-abcdefghijklmnopqrstuvwxyzABCDEFGHIJKLMNOPQRSTUVWXYZ0123456789''"

text \<open>
  \<^verbatim>\<open>re.sub\<close> for a pattern \<^verbatim>\<open>[...]+\<close>: every maximal run of characters of the class \<open>P\<close> is
  replaced by \<open>r\<close>; the flag says whether the character before belonged to a run.
\<close>

fun sub_runs :: "(char \<Rightarrow> bool) \<Rightarrow> string \<Rightarrow> bool \<Rightarrow> string \<Rightarrow> string" where
  "sub_runs P r in_run [] = []"
| "sub_runs P r in_run (c # cs) =
     (if P c then (if in_run then sub_runs P r True cs else r @ sub_runs P r True cs)
      else c # sub_runs P r False cs)"

definition strip_hyphens :: "string \<Rightarrow> string" where
  "strip_hyphens s =
     dropWhile (\<lambda>c. c = CHR ''-'') (rev (dropWhile (\<lambda>c. c = CHR ''-'') (rev s)))"

definition slugify :: "env \<Rightarrow> string \<Rightarrow> string" where
  "slugify env text =
     (let prepared = (if list_all plain_char text then map lower_ascii text
                      else slugify_prepare env text)
      in strip_hyphens
           (sub_runs (\<lambda>c. c = CHR ''-'') ''-'' False
              (sub_runs (\<lambda>c. \<not> slug_char c) ''-'' False prepared)))"

section \<open>The notebook's functions\<close>

definition get_json :: "env \<Rightarrow> string \<Rightarrow> event list \<times> (error + descriptor)" where
  "get_json env url =
     (let json_url = rstrip CHR ''/'' url @ ''/'' @ ''tiles.json'' in
      case requests_get env json_url of
        Inl e \<Rightarrow> ([Get json_url], Inl e)
      | Inr response \<Rightarrow>
          (case response_json env response of
             Inl e \<Rightarrow> ([Get json_url], Inl e)
           | Inr data \<Rightarrow> ([Get json_url], Inr data)))"

text \<open>
  The \<^verbatim>\<open>for\<close> loop of \<^verbatim>\<open>get_highest_level\<close> with its \<^verbatim>\<open>break\<close>; the second argument is the
  local \<^verbatim>\<open>highest_zoom\<close>, \<open>None\<close> while it is unbound.
\<close>

fun get_highest_level_loop :: "level list \<Rightarrow> level option \<Rightarrow> level option" where
  "get_highest_level_loop [] highest_zoom = highest_zoom"
| "get_highest_level_loop (l # ls) highest_zoom =
     (if level_name l = ''z0'' then Some l else get_highest_level_loop ls highest_zoom)"

definition get_highest_level :: "descriptor \<Rightarrow> error + level" where
  "get_highest_level data =
     (case get_highest_level_loop (levels data) None of
        None \<Rightarrow> Inl (UnboundLocalError ''highest_zoom'')
      | Some highest_zoom \<Rightarrow> Inr highest_zoom)"

text \<open>
  The locals of \<^verbatim>\<open>download_image\<close> that the tile loop assigns: the canvas \<^verbatim>\<open>img\<close>, the pair
  \<^verbatim>\<open>tile_w, tile_h\<close> and \<^verbatim>\<open>id\<close>; \<open>None\<close> is an unbound local.
\<close>

record locals =
  img :: image
  cell :: "(int \<times> int) option"
  ident :: "string option"

text \<open>One pass through the body of the loop over \<^verbatim>\<open>enumerate(level['tiles'])\<close>.\<close>

definition tile_step :: "env \<Rightarrow> string \<Rightarrow> locals \<Rightarrow> nat \<times> tile \<Rightarrow> event list \<times> (error + locals)" where
  "tile_step env url st it =
     (case it of (index, tile) \<Rightarrow>
        (case requests_get env (tile_url tile) of
           Inl e \<Rightarrow> ([Get (tile_url tile)], Inl e)
         | Inr response \<Rightarrow>
             (case Image_open env (content response) of
                Inl e \<Rightarrow> ([Get (tile_url tile)], Inl e)
              | Inr tile_img \<Rightarrow>
                  (case (if index = 0 then Some (size_w tile_img, size_h tile_img) else cell st) of
                     None \<Rightarrow> ([Get (tile_url tile)], Inl (UnboundLocalError ''tile_w''))
                   | Some (tile_w, tile_h) \<Rightarrow>
                       (let x = tile_x tile * tile_w;
                            y = tile_y tile * tile_h
                        in case paste (img st) tile_img (x, y) of
                             Inl e \<Rightarrow> ([Get (tile_url tile)], Inl e)
                           | Inr img' \<Rightarrow>
                               (case re_search url of
                                  None \<Rightarrow> ([Get (tile_url tile)], Inl AttributeError)
                                | Some g \<Rightarrow>
                                    ([Get (tile_url tile)],
                                     Inr \<lparr>img = img', cell = Some (tile_w, tile_h),
                                          ident = Some g\<rparr>)))))))"

fun tile_loop :: "env \<Rightarrow> string \<Rightarrow> (nat \<times> tile) list \<Rightarrow> locals \<Rightarrow> event list \<times> (error + locals)" where
  "tile_loop env url [] st = ([], Inr st)"
| "tile_loop env url (it # its) st =
     (case tile_step env url st it of
        (evs, Inl e) \<Rightarrow> (evs, Inl e)
      | (evs, Inr st') \<Rightarrow>
          (case tile_loop env url its st' of (evs', r) \<Rightarrow> (evs @ evs', r)))"

definition download_image :: "env \<Rightarrow> string \<Rightarrow> event list \<times> (error + unit)" where
  "download_image env url =
     (case get_json env url of
        (evs0, Inl e) \<Rightarrow> (evs0, Inl e)
      | (evs0, Inr data) \<Rightarrow>
          (case get_highest_level data of
             Inl e \<Rightarrow> (evs0, Inl e)
           | Inr level \<Rightarrow>
               (case Image_new env (level_width level, level_height level) of
                  Inl e \<Rightarrow> (evs0, Inl e)
                | Inr img0 \<Rightarrow>
                    (case tile_loop env url (enumerate 0 (level_tiles level))
                            \<lparr>img = img0, cell = None, ident = None\<rparr> of
                       (evs1, Inl e) \<Rightarrow> (evs0 @ evs1, Inl e)
                     | (evs1, Inr st) \<Rightarrow>
                         (case ident st of
                            None \<Rightarrow> (evs0 @ evs1, Inl (UnboundLocalError ''id''))
                          | Some i \<Rightarrow>
                              (let image_name = ''slsa-'' @ slugify env i @ ''.jpg'' in
                               case img_save env (img st) image_name of
                                 Some e \<Rightarrow> (evs0 @ evs1 @ [Save image_name (img st)], Inl e)
                               | None \<Rightarrow>
                                   (evs0 @ evs1 @
                                      [Save image_name (img st), FileLink image_name,
                                       HTML (''<img src='' @ [CHR 0x22] @ image_name @ [CHR 0x22] @ ''>'')],
                                    Inr ())))))))"

section \<open>Derived notions used in the statements\<close>

text \<open>
  The first two statements of the loop body taken together: the raster a tile's URL
  yields, or the exception raised by the request or by the decoder.
\<close>

definition tile_raster :: "env \<Rightarrow> tile \<Rightarrow> error + image" where
  "tile_raster env t =
     (case requests_get env (tile_url t) of
        Inl e \<Rightarrow> Inl e
      | Inr r \<Rightarrow> Image_open env (content r))"

text \<open>
  The canvas rectangle of a tile in a grid of \<open>cw\<close> by \<open>ch\<close> cells: its top-left corner is
  \<open>(x * cw, y * ch)\<close> and it has the size of the tile's raster \<open>im\<close>.
\<close>

definition in_region :: "int \<Rightarrow> int \<Rightarrow> image \<Rightarrow> tile \<Rightarrow> int \<Rightarrow> int \<Rightarrow> bool" where
  "in_region cw ch im t i j \<longleftrightarrow>
     tile_x t * cw \<le> i \<and> i < tile_x t * cw + size_w im \<and>
     tile_y t * ch \<le> j \<and> j < tile_y t * ch + size_h im"

definition in_canvas :: "image \<Rightarrow> int \<Rightarrow> int \<Rightarrow> bool" where
  "in_canvas c i j \<longleftrightarrow> 0 \<le> i \<and> i < size_w c \<and> 0 \<le> j \<and> j < size_h c"

text \<open>The tiles of a list whose rectangle contains the pixel \<open>(i, j)\<close>, in list order.\<close>

definition covering :: "int \<Rightarrow> int \<Rightarrow> (tile \<Rightarrow> image) \<Rightarrow> tile list \<Rightarrow> int \<Rightarrow> int \<Rightarrow> tile list" where
  "covering cw ch timg ts i j = filter (\<lambda>t. in_region cw ch (timg t) t i j) ts"

text \<open>
  The box of a tile's paste, \<open>(x * cw, y * ch)\<close> and the corner opposite, made of numbers
  that \<^verbatim>\<open>img.paste\<close> accepts.
\<close>

definition box_fits :: "int \<Rightarrow> int \<Rightarrow> image \<Rightarrow> tile \<Rightarrow> bool" where
  "box_fits cw ch im t \<longleftrightarrow>
     c_int (tile_x t * cw) \<and> c_int (tile_y t * ch) \<and>
     c_int (tile_x t * cw + size_w im) \<and> c_int (tile_y t * ch + size_h im)"

text \<open>Copying every tile of a list, in order, to its grid offset.\<close>

definition place_tiles :: "int \<Rightarrow> int \<Rightarrow> (tile \<Rightarrow> image) \<Rightarrow> image \<Rightarrow> tile list \<Rightarrow> image" where
  "place_tiles cw ch timg c ts =
     foldl (\<lambda>im t. clip_copy im (timg t) (tile_x t * cw, tile_y t * ch)) c ts"

text \<open>The canvas a run of the tile loop ends with, if it ends without an exception.\<close>

definition final_canvas :: "event list \<times> (error + locals) \<Rightarrow> image option" where
  "final_canvas run = (case snd run of Inl e \<Rightarrow> None | Inr st \<Rightarrow> Some (img st))"

text \<open>
  Two tiles overlap when some canvas pixel lies in the rectangles of both: the
  intersection of the two rectangles and the canvas is not empty. The regions of a list
  of tiles are pairwise disjoint when no two tiles at different positions overlap.
\<close>

definition overlap :: "int \<Rightarrow> int \<Rightarrow> (tile \<Rightarrow> image) \<Rightarrow> image \<Rightarrow> tile \<Rightarrow> tile \<Rightarrow> bool" where
  "overlap cw ch timg c t t' \<longleftrightarrow>
     max (max (tile_x t * cw) (tile_x t' * cw)) 0
       < min (min (tile_x t * cw + size_w (timg t)) (tile_x t' * cw + size_w (timg t'))) (size_w c) \<and>
     max (max (tile_y t * ch) (tile_y t' * ch)) 0
       < min (min (tile_y t * ch + size_h (timg t)) (tile_y t' * ch + size_h (timg t'))) (size_h c)"

fun regions_disjoint :: "int \<Rightarrow> int \<Rightarrow> (tile \<Rightarrow> image) \<Rightarrow> image \<Rightarrow> tile list \<Rightarrow> bool" where
  "regions_disjoint cw ch timg c [] = True"
| "regions_disjoint cw ch timg c (t # ts) =
     (list_all (\<lambda>t'. \<not> overlap cw ch timg c t t') ts \<and> regions_disjoint cw ch timg c ts)"


definition init_locals :: "image \<Rightarrow> locals" where
  "init_locals c = \<lparr>img = c, cell = None, ident = None\<rparr>"

section \<open>Example environments\<close>

text \<open>
  A small server used to run the functions on concrete inputs. Every URL ending in
  \<^verbatim>\<open>/tiles.json\<close> is answered with the descriptor \<open>d\<close>; the tiles \<^verbatim>\<open>t1\<close> to \<^verbatim>\<open>t4\<close> are
  50 by 50 rasters whose pixel \<open>(i, j)\<close> is \<open>(i, j, k)\<close> for tile \<open>k\<close>; \<^verbatim>\<open>missing\<close> is
  answered with status 404 and a placeholder picture; \<^verbatim>\<open>broken\<close> is answered with bytes
  that are no picture; any other URL makes the transport raise. Every canvas can be
  allocated and every save succeeds.
\<close>

definition gradient :: "8 word \<Rightarrow> image" where
  "gradient k = \<lparr>size_w = 50, size_h = 50, px = (\<lambda>i j. (word_of_int i, word_of_int j, k))\<rparr>"

definition ex_get :: "string \<Rightarrow> error + response" where
  "ex_get u =
     (if suffix ''/tiles.json'' u then Inr \<lparr>status_code = 200, content = [0]\<rparr>
      else if u = ''t1'' then Inr \<lparr>status_code = 200, content = [1]\<rparr>
      else if u = ''t2'' then Inr \<lparr>status_code = 200, content = [2]\<rparr>
      else if u = ''t3'' then Inr \<lparr>status_code = 200, content = [3]\<rparr>
      else if u = ''t4'' then Inr \<lparr>status_code = 200, content = [4]\<rparr>
      else if u = ''missing'' then Inr \<lparr>status_code = 404, content = [9]\<rparr>
      else if u = ''broken'' then Inr \<lparr>status_code = 200, content = [255]\<rparr>
      else Inl (RequestException u))"

definition ex_open :: "8 word list \<Rightarrow> error + image" where
  "ex_open bs =
     (case bs of
        [k] \<Rightarrow> if k = 0 \<or> k = 255 then Inl UnidentifiedImageError else Inr (gradient k)
      | _ \<Rightarrow> Inl UnidentifiedImageError)"

definition ex_env :: "descriptor \<Rightarrow> env" where
  "ex_env d =
     \<lparr>requests_get = ex_get,
      response_json = (\<lambda>r. if content r = [0] then Inr d else Inl JSONDecodeError),
      Image_open = ex_open,
      alloc_error = (\<lambda>sz. None),
      img_save = (\<lambda>im n. None),
      slugify_prepare = (\<lambda>s. s)\<rparr>"

definition ex_tile :: "string \<Rightarrow> int \<Rightarrow> int \<Rightarrow> tile" where
  "ex_tile u gx gy = \<lparr>tile_url = u, tile_x = gx, tile_y = gy\<rparr>"

definition ex_timg :: "tile \<Rightarrow> image" where
  "ex_timg t =
     (if tile_url t = ''t1'' then gradient 1
      else if tile_url t = ''t2'' then gradient 2
      else if tile_url t = ''t3'' then gradient 3
      else if tile_url t = ''t4'' then gradient 4
      else gradient 9)"

text \<open>A 100 by 100 level of four 50 by 50 tiles, listed after a smaller level.\<close>

definition ex_tiles4 :: "tile list" where
  "ex_tiles4 = [ex_tile ''t1'' 0 0, ex_tile ''t2'' 1 0, ex_tile ''t3'' 0 1, ex_tile ''t4'' 1 1]"

definition ex_level4 :: level where
  "ex_level4 = \<lparr>level_name = ''z0'', level_width = 100, level_height = 100, level_tiles = ex_tiles4\<rparr>"

definition ex_level_small :: level where
  "ex_level_small =
     \<lparr>level_name = ''z1'', level_width = 50, level_height = 50, level_tiles = [ex_tile ''t1'' 0 0]\<rparr>"

definition ex_desc4 :: descriptor where
  "ex_desc4 = \<lparr>levels = [ex_level_small, ex_level4]\<rparr>"

text \<open>A 120 by 100 level whose third column of tiles starts at 100 and overhangs the canvas.\<close>

definition ex_tiles_wide :: "tile list" where
  "ex_tiles_wide = [ex_tile ''t1'' 0 0, ex_tile ''t2'' 1 0, ex_tile ''t3'' 2 0]"

definition ex_desc_wide :: descriptor where
  "ex_desc_wide =
     \<lparr>levels = [\<lparr>level_name = ''z0'', level_width = 120, level_height = 100,
                 level_tiles = ex_tiles_wide\<rparr>]\<rparr>"

text \<open>Levels with one tile that cannot be fetched, with one tile answered 404, and with no tile.\<close>

definition ex_level_down :: level where
  "ex_level_down =
     \<lparr>level_name = ''z0'', level_width = 100, level_height = 100,
      level_tiles = [ex_tile ''t1'' 0 0, ex_tile ''t2'' 1 0, ex_tile ''t3'' 0 1, ex_tile ''down'' 1 1]\<rparr>"

definition ex_desc_down :: descriptor where
  "ex_desc_down = \<lparr>levels = [ex_level_down]\<rparr>"

definition ex_desc_404 :: descriptor where
  "ex_desc_404 =
     \<lparr>levels = [\<lparr>level_name = ''z0'', level_width = 100, level_height = 50,
                 level_tiles = [ex_tile ''t1'' 0 0, ex_tile ''missing'' 1 0]\<rparr>]\<rparr>"

definition ex_level_empty :: level where
  "ex_level_empty = \<lparr>level_name = ''z0'', level_width = 100, level_height = 100, level_tiles = []\<rparr>"

definition ex_desc_empty :: descriptor where
  "ex_desc_empty = \<lparr>levels = [ex_level_empty]\<rparr>"

definition ex_desc_no_z0 :: descriptor where
  "ex_desc_no_z0 = \<lparr>levels = [ex_level_small]\<rparr>"

text \<open>
  Levels with a tile far to the right: its box does not fit the numbers \<^verbatim>\<open>img.paste\<close>
  accepts.
\<close>

definition ex_desc_far :: descriptor where
  "ex_desc_far =
     \<lparr>levels = [\<lparr>level_name = ''z0'', level_width = 100, level_height = 100,
                 level_tiles = [ex_tile ''t1'' 0 0, ex_tile ''t2'' 1099511627776 0]\<rparr>]\<rparr>"

definition ex_desc_wide_far :: descriptor where
  "ex_desc_wide_far =
     \<lparr>levels = [\<lparr>level_name = ''z0'', level_width = 120, level_height = 100,
                 level_tiles = [ex_tile ''t1'' 0 0, ex_tile ''t2'' 1 0,
                                ex_tile ''t3'' 1099511627776 0]\<rparr>]\<rparr>"

text \<open>A level whose only tile is answered with status 404 and a placeholder picture.\<close>

definition ex_desc_placeholder :: descriptor where
  "ex_desc_placeholder =
     \<lparr>levels = [\<lparr>level_name = ''z0'', level_width = 50, level_height = 50,
                 level_tiles = [ex_tile ''missing'' 0 0]\<rparr>]\<rparr>"

section \<open>Copying tiles\<close>

lemma size_clip_copy [simp]:
  "size_w (clip_copy c im box) = size_w c" "size_h (clip_copy c im box) = size_h c"
  by (simp_all add: clip_copy_def split: prod.splits)

lemma size_place_tiles [simp]:
  "size_w (place_tiles cw ch timg c ts) = size_w c"
  "size_h (place_tiles cw ch timg c ts) = size_h c"
  by (induction ts arbitrary: c) (simp_all add: place_tiles_def)

lemma place_tiles_Cons:
  "place_tiles cw ch timg c (t # ts) =
     place_tiles cw ch timg (clip_copy c (timg t) (tile_x t * cw, tile_y t * ch)) ts"
  by (simp add: place_tiles_def)

lemma place_tiles_snoc:
  "place_tiles cw ch timg c (ts @ [t]) =
     clip_copy (place_tiles cw ch timg c ts) (timg t) (tile_x t * cw, tile_y t * ch)"
  by (simp add: place_tiles_def)

lemma px_clip_copy_tile:
  "px (clip_copy c im (tile_x t * cw, tile_y t * ch)) i j =
     (if in_canvas c i j \<and> in_region cw ch im t i j
      then px im (i - tile_x t * cw) (j - tile_y t * ch) else px c i j)"
  by (simp add: clip_copy_def in_canvas_def in_region_def)

lemma in_canvas_place_tiles [simp]:
  "in_canvas (place_tiles cw ch timg c ts) i j = in_canvas c i j"
  by (simp add: in_canvas_def)

lemma covering_snoc:
  "covering cw ch timg (ts @ [t]) i j =
     covering cw ch timg ts i j @ (if in_region cw ch (timg t) t i j then [t] else [])"
  by (simp add: covering_def)

lemma px_place_tiles:
  "px (place_tiles cw ch timg c ts) i j =
     (if in_canvas c i j \<and> covering cw ch timg ts i j \<noteq> []
      then px (timg (last (covering cw ch timg ts i j)))
             (i - tile_x (last (covering cw ch timg ts i j)) * cw)
             (j - tile_y (last (covering cw ch timg ts i j)) * ch)
      else px c i j)"
proof (induction ts rule: rev_induct)
  case Nil
  then show ?case by (simp add: place_tiles_def covering_def)
next
  case (snoc t ts)
  show ?case
  proof (cases "in_region cw ch (timg t) t i j")
    case True
    then show ?thesis
      by (simp add: place_tiles_snoc px_clip_copy_tile covering_snoc snoc.IH)
  next
    case False
    then show ?thesis
      by (simp add: place_tiles_snoc px_clip_copy_tile covering_snoc snoc.IH)
  qed
qed

lemma filter_last_nth:
  assumes "k < length xs" and "P (xs ! k)"
    and "\<forall>m. k < m \<and> m < length xs \<longrightarrow> \<not> P (xs ! m)"
  shows "filter P xs \<noteq> [] \<and> last (filter P xs) = xs ! k"
proof -
  have split: "xs = take k xs @ xs ! k # drop (Suc k) xs"
    using assms(1) by (rule id_take_nth_drop)
  have "\<forall>x\<in>set (drop (Suc k) xs). \<not> P x"
  proof
    fix x assume "x \<in> set (drop (Suc k) xs)"
    then obtain n where n: "n < length (drop (Suc k) xs)" "x = drop (Suc k) xs ! n"
      by (auto simp: in_set_conv_nth)
    then have "x = xs ! (Suc k + n)" and "Suc k + n < length xs"
      using assms(1) by auto
    then show "\<not> P x" using assms(3) by auto
  qed
  then have tail: "filter P (drop (Suc k) xs) = []"
    by (simp add: filter_empty_conv)
  have "filter P xs = filter P (take k xs) @ [xs ! k]"
    by (subst split) (simp add: assms(2) tail)
  then show ?thesis by simp
qed

lemma px_place_tiles_last_cover:
  assumes "k < length ts" and "in_canvas c i j"
    and "in_region cw ch (timg (ts ! k)) (ts ! k) i j"
    and "\<forall>m. k < m \<and> m < length ts \<longrightarrow> \<not> in_region cw ch (timg (ts ! m)) (ts ! m) i j"
  shows "px (place_tiles cw ch timg c ts) i j =
     px (timg (ts ! k)) (i - tile_x (ts ! k) * cw) (j - tile_y (ts ! k) * ch)"
proof -
  have "covering cw ch timg ts i j \<noteq> [] \<and> last (covering cw ch timg ts i j) = ts ! k"
    unfolding covering_def
    using assms(1,3,4) by (intro filter_last_nth) simp_all
  then show ?thesis using assms(2) by (simp add: px_place_tiles)
qed

section \<open>One pass of the loop\<close>

lemma tile_step_events: "fst (tile_step env url st it) = [Get (tile_url (snd it))]"
  by (cases it)
    (simp add: tile_step_def Let_def split: sum.splits option.splits prod.splits)

lemma tile_step_raster_error:
  "tile_raster env t = Inl e \<Longrightarrow> tile_step env url st (n, t) = ([Get (tile_url t)], Inl e)"
  by (auto simp: tile_step_def tile_raster_def split: sum.splits)

lemma tile_step_transport_error:
  "requests_get env (tile_url t) = Inl e \<Longrightarrow>
   tile_step env url st (n, t) = ([Get (tile_url t)], Inl e)"
  by (simp add: tile_step_def)

lemma tile_step_ignores_status:
  "requests_get env (tile_url t) = Inr r \<Longrightarrow>
   tile_step env url st (n, t) =
   tile_step (env\<lparr>requests_get := (requests_get env)(tile_url t := Inr (r\<lparr>status_code := 200\<rparr>))\<rparr>)
     url st (n, t)"
  by (simp add: tile_step_def)

lemma tile_step_unmatched:
  "re_search url = None \<Longrightarrow> \<exists>e. tile_step env url st (n, t) = ([Get (tile_url t)], Inl e)"
  by (auto simp: tile_step_def Let_def split: sum.splits option.splits)

lemma tile_step_ident:
  "tile_step env url st it = (evs, Inr st') \<Longrightarrow> ident st' = re_search url \<and> ident st' \<noteq> None"
  by (cases it) (auto simp: tile_step_def Let_def split: sum.splits option.splits if_splits)

lemma tile_step_paste:
  assumes "tile_raster env t = Inr im"
    and "(if n = 0 then Some (size_w im, size_h im) else cell st) = Some (cw, ch)"
  shows "tile_step env url st (n, t) =
     ([Get (tile_url t)],
      if box_fits cw ch im t
      then (case re_search url of
              None \<Rightarrow> Inl AttributeError
            | Some g \<Rightarrow>
                Inr \<lparr>img = clip_copy (img st) im (tile_x t * cw, tile_y t * ch),
                     cell = Some (cw, ch), ident = Some g\<rparr>)
      else Inl OverflowError)"
  using assms
  by (auto simp: tile_step_def tile_raster_def Let_def paste_def box_fits_def
      split: sum.splits option.splits)

section \<open>The tile loop\<close>

lemma tile_loop_success:
  assumes "\<forall>t\<in>set ts. tile_raster env t = Inr (timg t)"
    and "if n = 0 then size_w (timg (hd ts)) = cw \<and> size_h (timg (hd ts)) = ch
         else cell st = Some (cw, ch)"
    and "ts \<noteq> []"
    and "re_search url = Some g"
    and "\<forall>t\<in>set ts. box_fits cw ch (timg t) t"
  shows "snd (tile_loop env url (enumerate n ts) st) =
     Inr \<lparr>img = place_tiles cw ch timg (img st) ts, cell = Some (cw, ch), ident = Some g\<rparr>"
  using assms
proof (induction ts arbitrary: n st)
  case Nil
  then show ?case by simp
next
  case (Cons t ts)
  let ?st1 = "\<lparr>img = clip_copy (img st) (timg t) (tile_x t * cw, tile_y t * ch),
               cell = Some (cw, ch), ident = Some g\<rparr>"
  have cell: "(if n = 0 then Some (size_w (timg t), size_h (timg t)) else cell st) = Some (cw, ch)"
    using Cons.prems(2) by (simp split: if_splits)
  have raster: "tile_raster env t = Inr (timg t)" using Cons.prems(1) by simp
  have step: "tile_step env url st (n, t) = ([Get (tile_url t)], Inr ?st1)"
    using tile_step_paste [OF raster cell, of url] Cons.prems(4,5) by simp
  show ?case
  proof (cases "ts = []")
    case True
    then show ?thesis by (simp add: step place_tiles_def)
  next
    case False
    have "snd (tile_loop env url (enumerate (Suc n) ts) ?st1) =
        Inr \<lparr>img = place_tiles cw ch timg (img ?st1) ts, cell = Some (cw, ch), ident = Some g\<rparr>"
      using Cons.prems(1,4,5) False by (intro Cons.IH) simp_all
    then show ?thesis
      by (cases "tile_loop env url (enumerate (Suc n) ts) ?st1")
        (simp add: step place_tiles_Cons)
  qed
qed

lemma tile_loop_failure:
  assumes "\<forall>t\<in>set ts. tile_raster env t = Inr (timg t)"
    and "if n = 0 then size_w (timg (hd ts)) = cw \<and> size_h (timg (hd ts)) = ch
         else cell st = Some (cw, ch)"
    and "ts \<noteq> []"
    and "re_search url = None \<or> (\<exists>t\<in>set ts. \<not> box_fits cw ch (timg t) t)"
  shows "\<exists>e. snd (tile_loop env url (enumerate n ts) st) = Inl e"
  using assms
proof (induction ts arbitrary: n st)
  case Nil
  then show ?case by simp
next
  case (Cons t ts)
  let ?st1 = "\<lparr>img = clip_copy (img st) (timg t) (tile_x t * cw, tile_y t * ch),
               cell = Some (cw, ch), ident = re_search url\<rparr>"
  have cell: "(if n = 0 then Some (size_w (timg t), size_h (timg t)) else cell st) = Some (cw, ch)"
    using Cons.prems(2) by (simp split: if_splits)
  have raster: "tile_raster env t = Inr (timg t)" using Cons.prems(1) by simp
  note step = tile_step_paste [OF raster cell, of url]
  show ?case
  proof (cases "box_fits cw ch (timg t) t \<and> re_search url \<noteq> None")
    case False
    then show ?thesis using step by (auto split: option.splits)
  next
    case True
    then obtain g where g: "re_search url = Some g" by auto
    have step': "tile_step env url st (n, t) = ([Get (tile_url t)], Inr ?st1)"
      using step True g by simp
    have bad: "\<exists>t'\<in>set ts. \<not> box_fits cw ch (timg t') t'"
      using Cons.prems(4) True g by auto
    then have ne: "ts \<noteq> []" by auto
    have "\<exists>e. snd (tile_loop env url (enumerate (Suc n) ts) ?st1) = Inl e"
      using Cons.prems(1) ne bad by (intro Cons.IH) simp_all
    then show ?thesis
      by (cases "tile_loop env url (enumerate (Suc n) ts) ?st1") (auto simp: step')
  qed
qed

lemma saved_images_append [simp]: "saved_images (as @ bs) = saved_images as @ saved_images bs"
  by (induction as rule: saved_images.induct) simp_all

lemma saved_files_append [simp]: "saved_files (as @ bs) = saved_files as @ saved_files bs"
  by (induction as rule: saved_files.induct) simp_all

lemma saved_files_tile_loop: "saved_files (fst (tile_loop env url its st)) = []"
proof (induction its arbitrary: st)
  case Nil
  then show ?case by simp
next
  case (Cons it its)
  obtain evs r where s: "tile_step env url st it = (evs, r)" by (cases "tile_step env url st it")
  have evs: "evs = [Get (tile_url (snd it))]"
    using tile_step_events [of env url st it] s by simp
  show ?case
  proof (cases r)
    case (Inl e)
    then show ?thesis using s evs by simp
  next
    case (Inr st')
    obtain evs' r' where l: "tile_loop env url its st' = (evs', r')"
      by (cases "tile_loop env url its st'")
    have "saved_files evs' = []" using Cons.IH [of st'] l by simp
    then show ?thesis using s evs Inr l by simp
  qed
qed

lemma saved_images_tile_loop: "saved_images (fst (tile_loop env url its st)) = []"
proof (induction its arbitrary: st)
  case Nil
  then show ?case by simp
next
  case (Cons it its)
  obtain evs r where s: "tile_step env url st it = (evs, r)" by (cases "tile_step env url st it")
  have evs: "evs = [Get (tile_url (snd it))]"
    using tile_step_events [of env url st it] s by simp
  show ?case
  proof (cases r)
    case (Inl e)
    then show ?thesis using s evs by simp
  next
    case (Inr st')
    obtain evs' r' where l: "tile_loop env url its st' = (evs', r')"
      by (cases "tile_loop env url its st'")
    have "saved_images evs' = []" using Cons.IH [of st'] l by simp
    then show ?thesis using s evs Inr l by simp
  qed
qed

lemma tile_loop_fails:
  "(n, t) \<in> set its \<Longrightarrow> tile_raster env t = Inl e \<Longrightarrow>
   \<exists>err. snd (tile_loop env url its st) = Inl err"
proof (induction its arbitrary: st)
  case Nil
  then show ?case by simp
next
  case (Cons it its)
  obtain evs r where s: "tile_step env url st it = (evs, r)" by (cases "tile_step env url st it")
  show ?case
  proof (cases r)
    case (Inl e')
    then show ?thesis using s by simp
  next
    case (Inr st')
    have "it \<noteq> (n, t)"
      using Inr s tile_step_raster_error [OF Cons.prems(2), of url st n] by auto
    then have "(n, t) \<in> set its" using Cons.prems(1) by simp
    then obtain err where "snd (tile_loop env url its st') = Inl err"
      using Cons.IH [of st'] Cons.prems(2) by blast
    then show ?thesis using s Inr by (cases "tile_loop env url its st'") simp
  qed
qed

lemma in_set_enumerate:
  assumes "t \<in> set ts"
  shows "\<exists>n. (n, t) \<in> set (enumerate 0 ts)"
proof -
  have "snd ` set (enumerate 0 ts) = set ts"
    by (metis map_snd_enumerate set_map)
  then obtain p where "p \<in> set (enumerate 0 ts)" "snd p = t"
    using assms by (metis imageE)
  then have "(fst p, t) \<in> set (enumerate 0 ts)" by auto
  then show ?thesis by blast
qed

lemma tile_loop_ident:
  "tile_loop env url its st = (evs, Inr st') \<Longrightarrow>
   (its = [] \<and> st' = st) \<or> (ident st' = re_search url \<and> ident st' \<noteq> None)"
proof (induction its arbitrary: st evs)
  case Nil
  then show ?case by simp
next
  case (Cons it its)
  obtain e1 r1 where s: "tile_step env url st it = (e1, r1)" by (cases "tile_step env url st it")
  show ?case
  proof (cases r1)
    case (Inl e)
    then show ?thesis using Cons.prems s by simp
  next
    case (Inr st1)
    have i1: "ident st1 = re_search url \<and> ident st1 \<noteq> None"
      using tile_step_ident s Inr by blast
    obtain e2 r2 where l: "tile_loop env url its st1 = (e2, r2)"
      by (cases "tile_loop env url its st1")
    have "r2 = Inr st'" using Cons.prems s Inr l by simp
    then have "(its = [] \<and> st' = st1) \<or> (ident st' = re_search url \<and> ident st' \<noteq> None)"
      using Cons.IH l by blast
    then show ?thesis using i1 by auto
  qed
qed

text \<open>A request of the loop on which the transport raises is the last event of the loop.\<close>

lemma tile_loop_failed_request:
  assumes "tile_loop env url its st = (evs, r)"
    and "k < length evs" and "evs ! k = Get u" and "requests_get env u = Inl e"
  shows "r = Inl e \<and> length evs = Suc k"
  using assms
proof (induction its arbitrary: st evs k r)
  case Nil
  then show ?case by simp
next
  case (Cons it its)
  obtain e1 r1 where s: "tile_step env url st it = (e1, r1)" by (cases "tile_step env url st it")
  have e1: "e1 = [Get (tile_url (snd it))]"
    using tile_step_events [of env url st it] s by simp
  show ?case
  proof (cases k)
    case 0
    have hd: "evs ! 0 = Get (tile_url (snd it))"
      using Cons.prems(1) s e1 by (cases r1; cases "tile_loop env url its (projr r1)") auto
    then have u: "u = tile_url (snd it)" using Cons.prems(3) 0 by simp
    have "tile_step env url st (fst it, snd it) = ([Get (tile_url (snd it))], Inl e)"
      using tile_step_transport_error Cons.prems(4) u by blast
    then have "tile_step env url st it = ([Get (tile_url (snd it))], Inl e)" by simp
    then have "evs = [Get (tile_url (snd it))]" "r = Inl e"
      using Cons.prems(1) by simp_all
    then show ?thesis using 0 by simp
  next
    case (Suc k')
    show ?thesis
    proof (cases r1)
      case (Inl e')
      then show ?thesis using Cons.prems(1,2) s e1 Suc by auto
    next
      case (Inr st1)
      obtain e2 r2 where l: "tile_loop env url its st1 = (e2, r2)"
        by (cases "tile_loop env url its st1")
      have evs: "evs = Get (tile_url (snd it)) # e2" "r = r2"
        using Cons.prems(1) s e1 Inr l by simp_all
      have "k' < length e2" "e2 ! k' = Get u"
        using Cons.prems(2,3) evs Suc by simp_all
      then have "r2 = Inl e \<and> length e2 = Suc k'"
        using Cons.IH [OF l] Cons.prems(4) by blast
      then show ?thesis using evs Suc by simp
    qed
  qed
qed

section \<open>The whole download\<close>

lemma get_json_events: "fst (get_json env url) = [Get (rstrip CHR ''/'' url @ ''/tiles.json'')]"
  by (simp add: get_json_def Let_def split: sum.splits)

lemma Image_new_size:
  "Image_new env (w, h) = Inr c \<Longrightarrow> size_w c = w \<and> size_h c = h"
  by (auto simp: Image_new_def split: if_splits option.splits)

lemma download_image_shape:
  "\<exists>evs r. download_image env url = (Get (rstrip CHR ''/'' url @ ''/tiles.json'') # evs, r) \<and>
     ((\<exists>e. r = Inl e) \<and> saved_files evs = [] \<and> saved_images evs = [] \<or>
      (\<exists>evs0 data lv c evs1 st g.
          get_json env url = (evs0, Inr data) \<and> get_highest_level data = Inr lv \<and>
          Image_new env (level_width lv, level_height lv) = Inr c \<and>
          tile_loop env url (enumerate 0 (level_tiles lv)) \<lparr>img = c, cell = None, ident = None\<rparr> =
            (evs1, Inr st) \<and>
          re_search url = Some g \<and>
          saved_files evs = [''slsa-'' @ slugify env g @ ''.jpg''] \<and>
          saved_images evs = [img st]))"
proof -
  let ?j = "Get (rstrip CHR ''/'' url @ ''/tiles.json'')"
  obtain evs0 r0 where j: "get_json env url = (evs0, r0)" by (cases "get_json env url")
  have e0: "evs0 = [?j]"
    using get_json_events [of env url] j by simp
  show ?thesis
  proof (cases r0)
    case (Inl e)
    then show ?thesis using j e0 by (simp add: download_image_def)
  next
    case (Inr data)
    note data = this
    show ?thesis
    proof (cases "get_highest_level data")
      case (Inl e)
      then show ?thesis using j e0 data by (simp add: download_image_def)
    next
      case (Inr lv)
      note lv = this
      show ?thesis
      proof (cases "Image_new env (level_width lv, level_height lv)")
        case (Inl e)
        then show ?thesis using j e0 data lv by (simp add: download_image_def)
      next
        case (Inr c)
        note c = this
        let ?st0 = "\<lparr>img = c, cell = None, ident = None\<rparr>"
        let ?loop = "tile_loop env url (enumerate 0 (level_tiles lv)) ?st0"
        obtain evs1 r1 where l: "?loop = (evs1, r1)" by (cases ?loop)
        have s1: "saved_files evs1 = []" "saved_images evs1 = []"
          using saved_files_tile_loop [of env url "enumerate 0 (level_tiles lv)" ?st0]
            saved_images_tile_loop [of env url "enumerate 0 (level_tiles lv)" ?st0] l
          by simp_all
        show ?thesis
        proof (cases r1)
          case (Inl e)
          then show ?thesis using j e0 data lv c l s1 by (simp add: download_image_def)
        next
          case (Inr st)
          note st = this
          show ?thesis
          proof (cases "ident st")
            case None
            then show ?thesis using j e0 data lv c l s1 st by (simp add: download_image_def)
          next
            case (Some g)
            have "(enumerate 0 (level_tiles lv) = [] \<and> st = ?st0) \<or>
                (ident st = re_search url \<and> ident st \<noteq> None)"
              using tile_loop_ident l st by blast
            then have re: "re_search url = Some g" using Some by auto
            let ?n = "''slsa-'' @ slugify env g @ ''.jpg''"
            have run: "\<exists>tl r. download_image env url = (?j # evs1 @ Save ?n (img st) # tl, r) \<and>
                saved_files tl = [] \<and> saved_images tl = []"
              using j e0 data lv c l st Some
              by (cases "img_save env (img st) ?n") (simp_all add: download_image_def Let_def)
            then obtain tl r where run': "download_image env url = (?j # evs1 @ Save ?n (img st) # tl, r)"
              and tl: "saved_files tl = []" "saved_images tl = []"
              by blast
            have "saved_files (evs1 @ Save ?n (img st) # tl) = [?n]"
              "saved_images (evs1 @ Save ?n (img st) # tl) = [img st]"
              using s1 tl by simp_all
            then show ?thesis
              using run' j data lv c l st re by blast
          qed
        qed
      qed
    qed
  qed
qed

lemma download_image_reaches_save:
  assumes json: "get_json env url = (evs0, Inr data)"
    and lv: "get_highest_level data = Inr lv"
    and new: "Image_new env (level_width lv, level_height lv) = Inr c"
    and ts: "level_tiles lv = t0 # ts"
    and ok: "\<forall>t\<in>set (level_tiles lv). tile_raster env t = Inr (timg t)"
    and g: "re_search url = Some g"
    and cell: "cw = size_w (timg t0)" "ch = size_h (timg t0)"
    and fits: "\<forall>t\<in>set (level_tiles lv). box_fits cw ch (timg t) t"
  shows "\<exists>evs r. download_image env url = (evs, r) \<and>
      saved_files evs = [''slsa-'' @ slugify env g @ ''.jpg''] \<and>
      saved_images evs = [place_tiles cw ch timg c (level_tiles lv)] \<and>
      (img_save env (place_tiles cw ch timg c (level_tiles lv))
          (''slsa-'' @ slugify env g @ ''.jpg'') = None \<longrightarrow> r = Inr ())"
proof -
  let ?st0 = "\<lparr>img = c, cell = None, ident = None\<rparr>"
  let ?out = "place_tiles cw ch timg c (level_tiles lv)"
  let ?n = "''slsa-'' @ slugify env g @ ''.jpg''"
  let ?loop = "tile_loop env url (enumerate 0 (level_tiles lv)) ?st0"
  have e0: "evs0 = [Get (rstrip CHR ''/'' url @ ''/tiles.json'')]"
    using get_json_events [of env url] json by simp
  have "snd ?loop = Inr \<lparr>img = place_tiles cw ch timg (img ?st0) (level_tiles lv),
      cell = Some (cw, ch), ident = Some g\<rparr>"
    using ok g fits cell ts by (intro tile_loop_success) simp_all
  then obtain evs1 where l: "?loop = (evs1, Inr \<lparr>img = ?out, cell = Some (cw, ch), ident = Some g\<rparr>)"
    by (cases ?loop) simp
  have s1: "saved_files evs1 = []" "saved_images evs1 = []"
    using saved_files_tile_loop [of env url "enumerate 0 (level_tiles lv)" ?st0]
      saved_images_tile_loop [of env url "enumerate 0 (level_tiles lv)" ?st0] l
    by simp_all
  show ?thesis
    using s1 e0
    by (cases "img_save env ?out ?n") (simp_all add: download_image_def json lv new l Let_def)
qed

text \<open>
  A request after the descriptor's on which the transport raises is the last event of
  the download, and its error is the download's.
\<close>

lemma download_image_failed_request:
  assumes run: "download_image env url = (evs, r)"
    and k: "0 < k" "k < length evs" and get: "evs ! k = Get u"
    and fail: "requests_get env u = Inl e"
  shows "r = Inl e \<and> length evs = Suc k"
proof -
  let ?j = "Get (rstrip CHR ''/'' url @ ''/tiles.json'')"
  obtain evs0 r0 where j: "get_json env url = (evs0, r0)" by (cases "get_json env url")
  have e0: "evs0 = [?j]"
    using get_json_events [of env url] j by simp
  obtain k' where k': "k = Suc k'" using k(1) by (cases k) auto
  show ?thesis
  proof (cases r0)
    case (Inl e')
    then show ?thesis using run j e0 k by (auto simp: download_image_def)
  next
    case (Inr data)
    note data = this
    show ?thesis
    proof (cases "get_highest_level data")
      case (Inl e')
      then show ?thesis using run j e0 data k by (auto simp: download_image_def)
    next
      case (Inr lv)
      note lv = this
      show ?thesis
      proof (cases "Image_new env (level_width lv, level_height lv)")
        case (Inl e')
        then show ?thesis using run j e0 data lv k by (auto simp: download_image_def)
      next
        case (Inr c)
        note c = this
        let ?st0 = "\<lparr>img = c, cell = None, ident = None\<rparr>"
        let ?loop = "tile_loop env url (enumerate 0 (level_tiles lv)) ?st0"
        obtain evs1 r1 where l: "?loop = (evs1, r1)" by (cases ?loop)
        have shape: "\<exists>tl. evs = ?j # evs1 @ tl \<and> (\<forall>x\<in>set tl. \<forall>v. x \<noteq> Get v) \<and>
            (tl \<noteq> [] \<longrightarrow> (\<exists>st. r1 = Inr st)) \<and> (\<forall>e'. r1 = Inl e' \<longrightarrow> r = Inl e')"
          using run j e0 data lv c l
          by (auto simp: download_image_def Let_def split: sum.splits option.splits)
        then obtain tl where evs: "evs = ?j # evs1 @ tl"
          and tl: "\<forall>x\<in>set tl. \<forall>v. x \<noteq> Get v"
          and tl_ok: "tl \<noteq> [] \<longrightarrow> (\<exists>st. r1 = Inr st)"
          and err: "\<forall>e'. r1 = Inl e' \<longrightarrow> r = Inl e'"
          by blast
        have in_loop: "k' < length evs1"
        proof (rule ccontr)
          assume "\<not> k' < length evs1"
          then have "evs ! k = tl ! (k' - length evs1)" "k' - length evs1 < length tl"
            using evs k' k(2) by (simp_all add: nth_append)
          then have "Get u \<in> set tl" using get by (metis nth_mem)
          then show False using tl by blast
        qed
        then have "evs1 ! k' = Get u"
          using evs k' get by (simp add: nth_append)
        then have r1: "r1 = Inl e \<and> length evs1 = Suc k'"
          using tile_loop_failed_request [OF l in_loop _ fail] by blast
        then have "tl = []" using tl_ok by auto
        then show ?thesis using r1 err evs k' by simp
      qed
    qed
  qed
qed

section \<open>Disjoint regions and the order of the tiles\<close>

lemma short_lists_by_mset:
  "mset xs = mset ys \<Longrightarrow> length xs \<le> 1 \<Longrightarrow> xs = ys"
proof -
  assume m: "mset xs = mset ys" and l: "length xs \<le> 1"
  have ly: "length ys = length xs" using m by (metis size_mset)
  show ?thesis
  proof (cases xs)
    case Nil
    then show ?thesis using m by simp
  next
    case (Cons x xs')
    then have "xs' = []" using l by simp
    then have xs: "xs = [x]" using Cons by simp
    then obtain y where ys: "ys = [y]" using ly by (cases ys) auto
    then show ?thesis using m xs by simp
  qed
qed

lemma overlap_iff:
  "overlap cw ch timg c t t' \<longleftrightarrow>
     (\<exists>i j. in_canvas c i j \<and> in_region cw ch (timg t) t i j \<and> in_region cw ch (timg t') t' i j)"
proof
  assume o: "overlap cw ch timg c t t'"
  let ?i = "max (max (tile_x t * cw) (tile_x t' * cw)) 0"
  let ?j = "max (max (tile_y t * ch) (tile_y t' * ch)) 0"
  have "in_canvas c ?i ?j \<and> in_region cw ch (timg t) t ?i ?j \<and> in_region cw ch (timg t') t' ?i ?j"
    using o unfolding overlap_def in_canvas_def in_region_def by linarith
  then show "\<exists>i j. in_canvas c i j \<and> in_region cw ch (timg t) t i j \<and> in_region cw ch (timg t') t' i j"
    by blast
next
  assume "\<exists>i j. in_canvas c i j \<and> in_region cw ch (timg t) t i j \<and> in_region cw ch (timg t') t' i j"
  then show "overlap cw ch timg c t t'"
    by (auto simp: overlap_def in_canvas_def in_region_def)
qed

lemma covering_le1:
  assumes "regions_disjoint cw ch timg c ts" and "in_canvas c i j"
  shows "length (covering cw ch timg ts i j) \<le> 1"
  using assms(1)
proof (induction ts)
  case Nil
  then show ?case by (simp add: covering_def)
next
  case (Cons t ts)
  have IH: "length (covering cw ch timg ts i j) \<le> 1"
    using Cons by simp
  show ?case
  proof (cases "in_region cw ch (timg t) t i j")
    case True
    have "\<forall>t'\<in>set ts. \<not> in_region cw ch (timg t') t' i j"
    proof
      fix t' assume "t' \<in> set ts"
      then have "\<not> overlap cw ch timg c t t'"
        using Cons.prems by (simp add: list_all_iff)
      then show "\<not> in_region cw ch (timg t') t' i j"
        using True assms(2) overlap_iff by blast
    qed
    then have "covering cw ch timg ts i j = []"
      by (simp add: covering_def filter_empty_conv)
    then show ?thesis using True by (simp add: covering_def)
  next
    case False
    then show ?thesis using IH by (simp add: covering_def)
  qed
qed

lemma place_tiles_perm:
  assumes m: "mset ts' = mset ts" and d: "regions_disjoint cw ch timg c ts"
  shows "place_tiles cw ch timg c ts' = place_tiles cw ch timg c ts"
proof (rule image.equality)
  show "px (place_tiles cw ch timg c ts') = px (place_tiles cw ch timg c ts)"
  proof (intro ext)
    fix i j
    show "px (place_tiles cw ch timg c ts') i j = px (place_tiles cw ch timg c ts) i j"
    proof (cases "in_canvas c i j")
      case True
      have "mset (covering cw ch timg ts i j) = mset (covering cw ch timg ts' i j)"
        by (simp add: covering_def m)
      then have "covering cw ch timg ts i j = covering cw ch timg ts' i j"
        using covering_le1 [OF d True] by (rule short_lists_by_mset)
      then show ?thesis by (simp add: px_place_tiles)
    next
      case False
      then show ?thesis by (simp add: px_place_tiles)
    qed
  qed
qed simp_all

text \<open>
  The outcome of the loop on tiles that all decode to rasters of one size: the canvas with
  every tile copied to its place when the identifier is found and every box fits, and an
  exception otherwise.
\<close>

lemma final_canvas_uniform:
  assumes "\<forall>t\<in>set ts. tile_raster env t = Inr (timg t) \<and> size_w (timg t) = cw \<and> size_h (timg t) = ch"
  shows "final_canvas (tile_loop env url (enumerate 0 ts) (init_locals c)) =
     (if ts = [] then Some c
      else if re_search url \<noteq> None \<and> (\<forall>t\<in>set ts. box_fits cw ch (timg t) t)
      then Some (place_tiles cw ch timg c ts) else None)"
proof (cases "ts = []")
  case True
  then show ?thesis by (simp add: final_canvas_def init_locals_def)
next
  case False
  have ok: "\<forall>t\<in>set ts. tile_raster env t = Inr (timg t)" using assms by blast
  have cell: "if (0::nat) = 0 then size_w (timg (hd ts)) = cw \<and> size_h (timg (hd ts)) = ch
      else cell (init_locals c) = Some (cw, ch)"
    using assms False by simp
  show ?thesis
  proof (cases "re_search url \<noteq> None \<and> (\<forall>t\<in>set ts. box_fits cw ch (timg t) t)")
    case True
    then obtain g where g: "re_search url = Some g" by auto
    have "snd (tile_loop env url (enumerate 0 ts) (init_locals c)) =
        Inr \<lparr>img = place_tiles cw ch timg (img (init_locals c)) ts, cell = Some (cw, ch),
             ident = Some g\<rparr>"
      using ok cell False g True by (intro tile_loop_success) simp_all
    then show ?thesis using True False by (simp add: final_canvas_def init_locals_def)
  next
    case no: False
    then have "re_search url = None \<or> (\<exists>t\<in>set ts. \<not> box_fits cw ch (timg t) t)" by auto
    then have "\<exists>e. snd (tile_loop env url (enumerate 0 ts) (init_locals c)) = Inl e"
      using ok cell False by (intro tile_loop_failure) simp_all
    then show ?thesis using no False by (auto simp: final_canvas_def)
  qed
qed

section \<open>The identifier and its slug\<close>








lemma slugify_example: "slugify env ''B+43122'' = ''b-43122''"
  by (simp add: slugify_def plain_char_def lower_ascii_def slug_char_def strip_hyphens_def)

section \<open>Facts about the example environments\<close>

lemma ex_get_json:
  "get_json (ex_env d) ''https://host/resource/B+43122'' =
     ([Get ''https://host/resource/B+43122/tiles.json''], Inr d)"
  by (simp add: get_json_def rstrip_def ex_env_def ex_get_def suffix_def)

lemma ex_re_search: "re_search ''https://host/resource/B+43122'' = Some ''B+43122''"
  by simp

lemma ex_Image_new:
  "0 \<le> w \<Longrightarrow> w \<le> 1000 \<Longrightarrow> 0 \<le> h \<Longrightarrow> h \<le> 1000 \<Longrightarrow>
   Image_new (ex_env d) (w, h) = Inr \<lparr>size_w = w, size_h = h, px = (\<lambda>i j. (0, 0, 0))\<rparr>"
  by (simp add: Image_new_def c_int_def ex_env_def)

lemma ex_tile_raster:
  "tile_raster (ex_env d) (ex_tile ''t1'' gx gy) = Inr (gradient 1)"
  "tile_raster (ex_env d) (ex_tile ''t2'' gx gy) = Inr (gradient 2)"
  "tile_raster (ex_env d) (ex_tile ''t3'' gx gy) = Inr (gradient 3)"
  "tile_raster (ex_env d) (ex_tile ''t4'' gx gy) = Inr (gradient 4)"
  by (simp_all add: tile_raster_def ex_env_def ex_get_def ex_open_def ex_tile_def suffix_def)

lemma ex_tile_raster_down:
  "tile_raster (ex_env d) (ex_tile ''down'' gx gy) = Inl (RequestException ''down'')"
  by (simp add: tile_raster_def ex_env_def ex_get_def ex_tile_def suffix_def)

lemma ex_timg_simps:
  "ex_timg (ex_tile ''t1'' gx gy) = gradient 1"
  "ex_timg (ex_tile ''t2'' gx gy) = gradient 2"
  "ex_timg (ex_tile ''t3'' gx gy) = gradient 3"
  "ex_timg (ex_tile ''t4'' gx gy) = gradient 4"
  by (simp_all add: ex_timg_def ex_tile_def)

lemma ex_box_fits:
  "0 \<le> gx \<Longrightarrow> gx \<le> 100 \<Longrightarrow> 0 \<le> gy \<Longrightarrow> gy \<le> 100 \<Longrightarrow>
   box_fits 50 50 (gradient k) (ex_tile u gx gy)"
  by (simp add: box_fits_def c_int_def gradient_def ex_tile_def)

lemma ex4_disjoint:
  "regions_disjoint 50 50 ex_timg \<lparr>size_w = 100, size_h = 100, px = (\<lambda>i j. (0, 0, 0))\<rparr> ex_tiles4"
  by (simp add: ex_tiles4_def overlap_def ex_timg_simps gradient_def) (simp add: ex_tile_def)

text \<open>
  In the 100 by 100 example every canvas pixel lies in the rectangle of exactly one of the
  four tiles, the one of its grid cell: the tiles leave no gap and do not overlap.
\<close>

lemma ex4_exact_cover:
  assumes "0 \<le> i" "i < 100" "0 \<le> j" "j < 100"
  shows "covering 50 50 ex_timg ex_tiles4 i j =
     [ex_tile (if j < 50 then (if i < 50 then ''t1'' else ''t2'') else (if i < 50 then ''t3'' else ''t4''))
        (if i < 50 then 0 else 1) (if j < 50 then 0 else 1)]"
  using assms
  by (auto simp: covering_def ex_tiles4_def ex_timg_def in_region_def gradient_def ex_tile_def)

lemmas ex_run_defs =
  download_image_def get_json_def rstrip_def ex_env_def ex_get_def ex_open_def
  get_highest_level_def Image_new_def c_int_def paste_def tile_step_def ex_tile_def
  enumerate_eq_zip suffix_def gradient_def Let_def slugify_example

section \<open>Tile placement\<close>

text \<open>
  C1, as the code has it. For a level whose canvas \<^verbatim>\<open>Image.new\<close> allocates and whose tile
  collection is not empty, when the URL holds an identifier, every tile is fetched and
  decoded to a raster of the same size \<open>cw\<close> by \<open>ch\<close> (the size of the first tile
  processed) and every paste box is made of numbers that \<^verbatim>\<open>img.paste\<close> accepts,
  \<open>download_image\<close> reaches \<^verbatim>\<open>img.save\<close> with one canvas of the level's size in which each
  tile's raster sits with its top-left corner at \<open>(x * cw, y * ch)\<close>: the canvas pixel
  \<open>(i, j)\<close> of the tile's cell is the tile's pixel \<open>(i - x * cw, j - y * ch)\<close>, unless a tile
  later in the collection was pasted over it. The instance below runs the 100 by 100
  level of four 50 by 50 tiles and reads output pixel \<open>(75, 75)\<close>.
\<close>

theorem tiles_land_at_grid_offsets:
  assumes "get_json env url = (evs0, Inr data)"
    and "get_highest_level data = Inr lv"
    and "Image_new env (level_width lv, level_height lv) = Inr c"
    and "level_tiles lv \<noteq> []"
    and "\<forall>t\<in>set (level_tiles lv).
           tile_raster env t = Inr (timg t) \<and> size_w (timg t) = cw \<and> size_h (timg t) = ch \<and>
           box_fits cw ch (timg t) t"
    and "re_search url = Some g"
  shows "\<exists>evs r out. download_image env url = (evs, r) \<and> saved_images evs = [out] \<and>
      size_w out = level_width lv \<and> size_h out = level_height lv \<and>
      (\<forall>k i j. k < length (level_tiles lv) \<and>
          0 \<le> i \<and> i < level_width lv \<and> 0 \<le> j \<and> j < level_height lv \<and>
          tile_x (level_tiles lv ! k) * cw \<le> i \<and> i < tile_x (level_tiles lv ! k) * cw + cw \<and>
          tile_y (level_tiles lv ! k) * ch \<le> j \<and> j < tile_y (level_tiles lv ! k) * ch + ch \<and>
          (\<forall>m. k < m \<and> m < length (level_tiles lv) \<longrightarrow>
             \<not> in_region cw ch (timg (level_tiles lv ! m)) (level_tiles lv ! m) i j)
          \<longrightarrow> px out i j =
                px (timg (level_tiles lv ! k))
                  (i - tile_x (level_tiles lv ! k) * cw)
                  (j - tile_y (level_tiles lv ! k) * ch))"
proof -
  let ?ts = "level_tiles lv"
  obtain t0 ts' where ts: "?ts = t0 # ts'"
    using assms(4) by (cases ?ts) auto
  have sz: "size_w c = level_width lv" "size_h c = level_height lv"
    using Image_new_size [OF assms(3)] by simp_all
  have ok: "\<forall>t\<in>set ?ts. tile_raster env t = Inr (timg t)"
    using assms(5) by blast
  have fits: "\<forall>t\<in>set ?ts. box_fits cw ch (timg t) t"
    using assms(5) by blast
  have first: "cw = size_w (timg t0)" "ch = size_h (timg t0)"
    using assms(5) ts by simp_all
  let ?out = "place_tiles cw ch timg c ?ts"
  obtain evs r where run: "download_image env url = (evs, r)" "saved_images evs = [?out]"
    using download_image_reaches_save [OF assms(1,2,3) ts ok assms(6) first fits] by blast
  have pix: "px ?out i j =
       px (timg (?ts ! k)) (i - tile_x (?ts ! k) * cw) (j - tile_y (?ts ! k) * ch)"
    if k: "k < length ?ts"
      and c: "0 \<le> i" "i < level_width lv" "0 \<le> j" "j < level_height lv"
      and r: "tile_x (?ts ! k) * cw \<le> i" "i < tile_x (?ts ! k) * cw + cw"
             "tile_y (?ts ! k) * ch \<le> j" "j < tile_y (?ts ! k) * ch + ch"
      and later: "\<forall>m. k < m \<and> m < length ?ts \<longrightarrow> \<not> in_region cw ch (timg (?ts ! m)) (?ts ! m) i j"
    for k i j
  proof -
    have tsz: "size_w (timg (?ts ! k)) = cw" "size_h (timg (?ts ! k)) = ch"
      using assms(5) k by simp_all
    have inc: "in_canvas c i j" using c sz by (simp add: in_canvas_def)
    have inr: "in_region cw ch (timg (?ts ! k)) (?ts ! k) i j"
      using r tsz by (simp add: in_region_def)
    show ?thesis
      using k inc inr later by (rule px_place_tiles_last_cover)
  qed
  show ?thesis
  proof (intro exI conjI allI impI)
    show "download_image env url = (evs, r)" by (rule run(1))
    show "saved_images evs = [?out]" by (rule run(2))
    show "size_w ?out = level_width lv" using sz by simp
    show "size_h ?out = level_height lv" using sz by simp
  next
    fix k i j
    assume "k < length ?ts \<and> 0 \<le> i \<and> i < level_width lv \<and> 0 \<le> j \<and> j < level_height lv \<and>
          tile_x (?ts ! k) * cw \<le> i \<and> i < tile_x (?ts ! k) * cw + cw \<and>
          tile_y (?ts ! k) * ch \<le> j \<and> j < tile_y (?ts ! k) * ch + ch \<and>
          (\<forall>m. k < m \<and> m < length ?ts \<longrightarrow> \<not> in_region cw ch (timg (?ts ! m)) (?ts ! m) i j)"
    then show "px ?out i j =
       px (timg (?ts ! k)) (i - tile_x (?ts ! k) * cw) (j - tile_y (?ts ! k) * ch)"
      using pix by blast
  qed
qed

theorem tiles_land_at_grid_offsets_witness:
  "\<exists>evs r out. download_image (ex_env ex_desc4) ''https://host/resource/B+43122'' = (evs, r) \<and>
      saved_images evs = [out] \<and> size_w out = 100 \<and> size_h out = 100 \<and>
      px out 75 75 = px (gradient 4) 25 25 \<and> px out 75 75 = (25, 25, 4)"
proof -
  have lv: "get_highest_level ex_desc4 = Inr ex_level4"
    by (simp add: get_highest_level_def ex_desc4_def ex_level4_def ex_level_small_def)
  have ts: "level_tiles ex_level4 = ex_tiles4"
    by (simp add: ex_level4_def)
  have new: "Image_new (ex_env ex_desc4) (level_width ex_level4, level_height ex_level4) =
      Inr \<lparr>size_w = 100, size_h = 100, px = (\<lambda>i j. (0, 0, 0))\<rparr>"
    by (simp add: ex_level4_def ex_Image_new)
  have ok: "\<forall>t\<in>set (level_tiles ex_level4).
       tile_raster (ex_env ex_desc4) t = Inr (ex_timg t) \<and>
       size_w (ex_timg t) = 50 \<and> size_h (ex_timg t) = 50 \<and> box_fits 50 50 (ex_timg t) t"
    by (simp add: ts ex_tiles4_def ex_tile_raster ex_timg_simps ex_box_fits) (simp add: gradient_def)
  have ne: "level_tiles ex_level4 \<noteq> []"
    by (simp add: ex_level4_def ex_tiles4_def)
  from tiles_land_at_grid_offsets [OF ex_get_json lv new ne ok ex_re_search]
  obtain evs r out where run: "download_image (ex_env ex_desc4) ''https://host/resource/B+43122'' = (evs, r)"
      "saved_images evs = [out]" "size_w out = level_width ex_level4" "size_h out = level_height ex_level4"
    and pix: "\<And>k i j. k < length (level_tiles ex_level4) \<and>
          0 \<le> i \<and> i < level_width ex_level4 \<and> 0 \<le> j \<and> j < level_height ex_level4 \<and>
          tile_x (level_tiles ex_level4 ! k) * 50 \<le> i \<and> i < tile_x (level_tiles ex_level4 ! k) * 50 + 50 \<and>
          tile_y (level_tiles ex_level4 ! k) * 50 \<le> j \<and> j < tile_y (level_tiles ex_level4 ! k) * 50 + 50 \<and>
          (\<forall>m. k < m \<and> m < length (level_tiles ex_level4) \<longrightarrow>
             \<not> in_region 50 50 (ex_timg (level_tiles ex_level4 ! m)) (level_tiles ex_level4 ! m) i j)
          \<Longrightarrow> px out i j =
                px (ex_timg (level_tiles ex_level4 ! k))
                  (i - tile_x (level_tiles ex_level4 ! k) * 50)
                  (j - tile_y (level_tiles ex_level4 ! k) * 50)"
    by blast
  have k: "level_tiles ex_level4 ! 3 = ex_tile ''t4'' 1 1" "length (level_tiles ex_level4) = 4"
    by (simp_all add: ts ex_tiles4_def)
  have later: "\<forall>m. 3 < m \<and> m < length (level_tiles ex_level4) \<longrightarrow>
      \<not> in_region 50 50 (ex_timg (level_tiles ex_level4 ! m)) (level_tiles ex_level4 ! m) 75 75"
    unfolding k by auto
  have "px out 75 75 =
      px (ex_timg (level_tiles ex_level4 ! 3))
        (75 - tile_x (level_tiles ex_level4 ! 3) * 50)
        (75 - tile_y (level_tiles ex_level4 ! 3) * 50)"
    using later by (intro pix) (simp add: k, simp add: ex_level4_def ex_tile_def)
  then have "px out 75 75 = px (gradient 4) 25 25"
    by (simp add: k ex_timg_simps) (simp add: ex_tile_def)
  then show ?thesis
    using run by (auto simp: ex_level4_def gradient_def)
qed

text \<open>
  C1 as stated fails: on a 100 by 100 level with 50 by 50 tiles at grid positions
  \<open>(0, 0)\<close> and \<open>(2 ^ 40, 0)\<close> the second paste raises \<^verbatim>\<open>OverflowError\<close>; the tile is not
  placed and \<^verbatim>\<open>img.save\<close> is not reached.
\<close>

theorem far_tile_is_not_placed_counterexample:
  "tile_raster (ex_env ex_desc_far) (ex_tile ''t2'' 1099511627776 0) = Inr (gradient 2) \<and>
   download_image (ex_env ex_desc_far) ''https://host/resource/B+43122'' =
     ([Get ''https://host/resource/B+43122/tiles.json'', Get ''t1'', Get ''t2''], Inl OverflowError)"
  by (simp add: ex_run_defs ex_desc_far_def tile_raster_def)

section \<open>Clipping\<close>

text \<open>
  C7, as the code has it. Whatever the grid positions and raster sizes of the tiles, so
  also when a tile's rectangle extends past the canvas's declared width or height, as
  long as every paste box is made of numbers that \<^verbatim>\<open>img.paste\<close> accepts, the pastes raise
  nothing: in a run whose canvas is allocated, whose tiles are fetched and decoded and
  whose URL holds an identifier, \<open>download_image\<close> reaches \<^verbatim>\<open>img.save\<close> (and ends well
  when the save does) with a canvas of exactly the level's declared size, in which every
  pixel of a tile's rectangle (not pasted over by a later tile) is the tile's pixel at
  that offset. The instance below runs a 120 by 100 level with 50 by 50 tiles: the tile
  of grid column 2 fills canvas columns 100 to 119 with its columns 0 to 19, and the
  canvas is 120 wide.
\<close>

theorem overhanging_tiles_are_clipped:
  assumes "get_json env url = (evs0, Inr data)"
    and "get_highest_level data = Inr lv"
    and "Image_new env (level_width lv, level_height lv) = Inr c"
    and "level_tiles lv = t0 # ts"
    and "\<forall>t\<in>set (level_tiles lv). tile_raster env t = Inr (timg t)"
    and "re_search url = Some g"
    and "cw = size_w (timg t0)" and "ch = size_h (timg t0)"
    and "\<forall>t\<in>set (level_tiles lv). box_fits cw ch (timg t) t"
  shows "\<exists>evs r out. download_image env url = (evs, r) \<and> saved_images evs = [out] \<and>
      (img_save env out (''slsa-'' @ slugify env g @ ''.jpg'') = None \<longrightarrow> r = Inr ()) \<and>
      size_w out = level_width lv \<and> size_h out = level_height lv \<and>
      (\<forall>k i j. k < length (level_tiles lv) \<and>
          0 \<le> i \<and> i < level_width lv \<and> 0 \<le> j \<and> j < level_height lv \<and>
          in_region cw ch (timg (level_tiles lv ! k)) (level_tiles lv ! k) i j \<and>
          (\<forall>m. k < m \<and> m < length (level_tiles lv) \<longrightarrow>
             \<not> in_region cw ch (timg (level_tiles lv ! m)) (level_tiles lv ! m) i j)
          \<longrightarrow> px out i j =
                px (timg (level_tiles lv ! k))
                  (i - tile_x (level_tiles lv ! k) * cw)
                  (j - tile_y (level_tiles lv ! k) * ch))"
proof -
  let ?ts = "level_tiles lv"
  have sz: "size_w c = level_width lv" "size_h c = level_height lv"
    using Image_new_size [OF assms(3)] by simp_all
  let ?out = "place_tiles cw ch timg c ?ts"
  obtain evs r where run: "download_image env url = (evs, r)" "saved_images evs = [?out]"
      "img_save env ?out (''slsa-'' @ slugify env g @ ''.jpg'') = None \<longrightarrow> r = Inr ()"
    using download_image_reaches_save [OF assms] by (elim exE conjE)
  have pix: "px ?out i j =
       px (timg (?ts ! k)) (i - tile_x (?ts ! k) * cw) (j - tile_y (?ts ! k) * ch)"
    if k: "k < length ?ts"
      and c: "0 \<le> i" "i < level_width lv" "0 \<le> j" "j < level_height lv"
      and inr: "in_region cw ch (timg (?ts ! k)) (?ts ! k) i j"
      and later: "\<forall>m. k < m \<and> m < length ?ts \<longrightarrow> \<not> in_region cw ch (timg (?ts ! m)) (?ts ! m) i j"
    for k i j
  proof -
    have inc: "in_canvas c i j" using c sz by (simp add: in_canvas_def)
    show ?thesis
      using k inc inr later by (rule px_place_tiles_last_cover)
  qed
  show ?thesis
  proof (intro exI conjI allI)
    show "download_image env url = (evs, r)" by (rule run(1))
    show "saved_images evs = [?out]" by (rule run(2))
    show "img_save env ?out (''slsa-'' @ slugify env g @ ''.jpg'') = None \<longrightarrow> r = Inr ()"
      by (rule run(3))
    show "size_w ?out = level_width lv" using sz by simp
    show "size_h ?out = level_height lv" using sz by simp
  next
    fix k i j
    show "k < length ?ts \<and> 0 \<le> i \<and> i < level_width lv \<and> 0 \<le> j \<and> j < level_height lv \<and>
          in_region cw ch (timg (?ts ! k)) (?ts ! k) i j \<and>
          (\<forall>m. k < m \<and> m < length ?ts \<longrightarrow> \<not> in_region cw ch (timg (?ts ! m)) (?ts ! m) i j)
       \<longrightarrow> px ?out i j =
       px (timg (?ts ! k)) (i - tile_x (?ts ! k) * cw) (j - tile_y (?ts ! k) * ch)"
      using pix by blast
  qed
qed

theorem overhanging_tiles_are_clipped_witness:
  "\<exists>evs out. download_image (ex_env ex_desc_wide) ''https://host/resource/B+43122'' = (evs, Inr ()) \<and>
      saved_images evs = [out] \<and> size_w out = 120 \<and> size_h out = 100 \<and>
      px out 100 10 = px (gradient 3) 0 10 \<and>
      px out 119 10 = px (gradient 3) 19 10"
proof -
  let ?lv = "\<lparr>level_name = ''z0'', level_width = 120, level_height = 100, level_tiles = ex_tiles_wide\<rparr>"
  have lv: "get_highest_level ex_desc_wide = Inr ?lv"
    by (simp add: get_highest_level_def ex_desc_wide_def)
  have new: "Image_new (ex_env ex_desc_wide) (level_width ?lv, level_height ?lv) =
      Inr \<lparr>size_w = 120, size_h = 100, px = (\<lambda>i j. (0, 0, 0))\<rparr>"
    by (simp add: ex_Image_new)
  have ts: "level_tiles ?lv = ex_tile ''t1'' 0 0 # [ex_tile ''t2'' 1 0, ex_tile ''t3'' 2 0]"
    by (simp add: ex_tiles_wide_def)
  have ok: "\<forall>t\<in>set (level_tiles ?lv). tile_raster (ex_env ex_desc_wide) t = Inr (ex_timg t)"
    by (simp add: ex_tiles_wide_def ex_tile_raster ex_timg_simps)
  have cw: "50 = size_w (ex_timg (ex_tile ''t1'' 0 0))" "50 = size_h (ex_timg (ex_tile ''t1'' 0 0))"
    by (simp_all add: ex_timg_simps gradient_def)
  have fits: "\<forall>t\<in>set (level_tiles ?lv). box_fits 50 50 (ex_timg t) t"
    by (simp add: ex_tiles_wide_def ex_timg_simps ex_box_fits)
  from overhanging_tiles_are_clipped [OF ex_get_json lv new ts ok ex_re_search cw fits]
  obtain evs r out where all: "download_image (ex_env ex_desc_wide) ''https://host/resource/B+43122'' = (evs, r) \<and>
      saved_images evs = [out] \<and>
      (img_save (ex_env ex_desc_wide) out (''slsa-'' @ slugify (ex_env ex_desc_wide) ''B+43122'' @ ''.jpg'') = None
         \<longrightarrow> r = Inr ()) \<and>
      size_w out = level_width ?lv \<and> size_h out = level_height ?lv \<and>
      (\<forall>k i j. k < length (level_tiles ?lv) \<and>
          0 \<le> i \<and> i < level_width ?lv \<and> 0 \<le> j \<and> j < level_height ?lv \<and>
          in_region 50 50 (ex_timg (level_tiles ?lv ! k)) (level_tiles ?lv ! k) i j \<and>
          (\<forall>m. k < m \<and> m < length (level_tiles ?lv) \<longrightarrow>
             \<not> in_region 50 50 (ex_timg (level_tiles ?lv ! m)) (level_tiles ?lv ! m) i j)
          \<longrightarrow> px out i j =
                px (ex_timg (level_tiles ?lv ! k))
                  (i - tile_x (level_tiles ?lv ! k) * 50)
                  (j - tile_y (level_tiles ?lv ! k) * 50))"
    by (elim exE)
  then have run: "download_image (ex_env ex_desc_wide) ''https://host/resource/B+43122'' = (evs, r)"
      "saved_images evs = [out]"
      "img_save (ex_env ex_desc_wide) out (''slsa-'' @ slugify (ex_env ex_desc_wide) ''B+43122'' @ ''.jpg'') = None
         \<longrightarrow> r = Inr ()"
      "size_w out = level_width ?lv" "size_h out = level_height ?lv"
    by simp_all
  have pix: "px out i j =
                px (ex_timg (level_tiles ?lv ! k))
                  (i - tile_x (level_tiles ?lv ! k) * 50)
                  (j - tile_y (level_tiles ?lv ! k) * 50)"
    if "k < length (level_tiles ?lv) \<and>
          0 \<le> i \<and> i < level_width ?lv \<and> 0 \<le> j \<and> j < level_height ?lv \<and>
          in_region 50 50 (ex_timg (level_tiles ?lv ! k)) (level_tiles ?lv ! k) i j \<and>
          (\<forall>m. k < m \<and> m < length (level_tiles ?lv) \<longrightarrow>
             \<not> in_region 50 50 (ex_timg (level_tiles ?lv ! m)) (level_tiles ?lv ! m) i j)" for k i j
    using all that by blast
  have r: "r = Inr ()" using run(3) by (simp add: ex_env_def)
  have k: "level_tiles ?lv ! 2 = ex_tile ''t3'' 2 0" "length (level_tiles ?lv) = 3"
    by (simp_all add: ex_tiles_wide_def)
  have later: "\<forall>m. 2 < m \<and> m < length (level_tiles ?lv) \<longrightarrow>
      \<not> in_region 50 50 (ex_timg (level_tiles ?lv ! m)) (level_tiles ?lv ! m) i j" for i j
    unfolding k by auto
  have reg: "in_region 50 50 (ex_timg (level_tiles ?lv ! 2)) (level_tiles ?lv ! 2) 100 10"
    "in_region 50 50 (ex_timg (level_tiles ?lv ! 2)) (level_tiles ?lv ! 2) 119 10"
    unfolding k by (simp_all add: in_region_def ex_timg_simps gradient_def) (simp_all add: ex_tile_def)
  have a: "px out 100 10 =
      px (ex_timg (level_tiles ?lv ! 2))
        (100 - tile_x (level_tiles ?lv ! 2) * 50) (10 - tile_y (level_tiles ?lv ! 2) * 50)"
    using later reg(1) by (intro pix) (simp add: ex_tiles_wide_def)
  have b: "px out 119 10 =
      px (ex_timg (level_tiles ?lv ! 2))
        (119 - tile_x (level_tiles ?lv ! 2) * 50) (10 - tile_y (level_tiles ?lv ! 2) * 50)"
    using later reg(2) by (intro pix) (simp add: ex_tiles_wide_def)
  have a': "px out 100 10 = px (gradient 3) 0 10"
    unfolding a k by (simp add: ex_timg_simps) (simp add: ex_tile_def)
  have b': "px out 119 10 = px (gradient 3) 19 10"
    unfolding b k by (simp add: ex_timg_simps) (simp add: ex_tile_def)
  show ?thesis
    using run(1,2,4,5) r a' b' by simp
qed

text \<open>
  C7 as stated fails: on the 120 by 100 level a tile at grid column \<open>2 ^ 40\<close>, whose
  rectangle lies past the canvas's width, makes the paste raise \<^verbatim>\<open>OverflowError\<close>.
\<close>

theorem far_overhang_raises_counterexample:
  "download_image (ex_env ex_desc_wide_far) ''https://host/resource/B+43122'' =
     ([Get ''https://host/resource/B+43122/tiles.json'', Get ''t1'', Get ''t2'', Get ''t3''],
      Inl OverflowError)"
  by (simp add: ex_run_defs ex_desc_wide_far_def)

section \<open>Order of the tiles\<close>

text \<open>
  C8. When every tile decodes to a raster of the same size and the tiles' regions are
  pairwise disjoint, the tile loop run on any permutation of the tile collection has the
  same outcome: the same canvas, or in both orders an exception and no canvas. It does
  end with a canvas when the URL holds an identifier and every paste box is made of
  numbers that \<^verbatim>\<open>img.paste\<close> accepts.
\<close>

theorem tile_order_does_not_matter:
  assumes "mset ts' = mset ts"
    and "\<forall>t\<in>set ts. tile_raster env t = Inr (timg t) \<and> size_w (timg t) = cw \<and> size_h (timg t) = ch"
    and "regions_disjoint cw ch timg c ts"
  shows "final_canvas (tile_loop env url (enumerate 0 ts') (init_locals c)) =
       final_canvas (tile_loop env url (enumerate 0 ts) (init_locals c)) \<and>
     (re_search url \<noteq> None \<and> (\<forall>t\<in>set ts. box_fits cw ch (timg t) t) \<longrightarrow>
        final_canvas (tile_loop env url (enumerate 0 ts) (init_locals c)) \<noteq> None)"
proof -
  have set: "set ts' = set ts" using assms(1) by (metis set_mset_mset)
  have nil: "ts' = [] \<longleftrightarrow> ts = []" using assms(1) by (metis mset_zero_iff)
  have ok': "\<forall>t\<in>set ts'. tile_raster env t = Inr (timg t) \<and> size_w (timg t) = cw \<and> size_h (timg t) = ch"
    using assms(2) set by simp
  have perm: "place_tiles cw ch timg c ts' = place_tiles cw ch timg c ts"
    using assms(1,3) by (rule place_tiles_perm)
  show ?thesis
    unfolding final_canvas_uniform [OF assms(2)] final_canvas_uniform [OF ok']
    by (simp add: set nil perm)
qed

theorem tile_order_does_not_matter_witness:
  "final_canvas (tile_loop (ex_env ex_desc4) ''https://host/resource/B+43122''
       (enumerate 0 (rev ex_tiles4))
       (init_locals \<lparr>size_w = 100, size_h = 100, px = (\<lambda>i j. (0, 0, 0))\<rparr>)) =
   final_canvas (tile_loop (ex_env ex_desc4) ''https://host/resource/B+43122''
       (enumerate 0 ex_tiles4)
       (init_locals \<lparr>size_w = 100, size_h = 100, px = (\<lambda>i j. (0, 0, 0))\<rparr>)) \<and>
   final_canvas (tile_loop (ex_env ex_desc4) ''https://host/resource/B+43122''
       (enumerate 0 ex_tiles4)
       (init_locals \<lparr>size_w = 100, size_h = 100, px = (\<lambda>i j. (0, 0, 0))\<rparr>)) \<noteq> None"
proof -
  have m: "mset (rev ex_tiles4) = mset ex_tiles4" by simp
  have ok: "\<forall>t\<in>set ex_tiles4.
       tile_raster (ex_env ex_desc4) t = Inr (ex_timg t) \<and>
       size_w (ex_timg t) = 50 \<and> size_h (ex_timg t) = 50"
    by (simp add: ex_tiles4_def ex_tile_raster ex_timg_simps gradient_def)
  have fits: "\<forall>t\<in>set ex_tiles4. box_fits 50 50 (ex_timg t) t"
    by (simp add: ex_tiles4_def ex_timg_simps ex_box_fits)
  have re: "re_search ''https://host/resource/B+43122'' \<noteq> None"
    by (simp add: ex_re_search)
  show ?thesis
    using tile_order_does_not_matter [OF m ok ex4_disjoint, of "''https://host/resource/B+43122''"]
      fits re by blast
qed

section \<open>Failing tiles\<close>

text \<open>
  C4, as the code has it. When the fetch or the decoding of any one tile of the selected
  level raises, the whole of \<open>download_image\<close> ends with an error and never reaches
  \<^verbatim>\<open>img.save\<close>: no file is written, whatever the other tiles did. The instance below runs
  a level of four tiles whose last tile cannot be fetched.
\<close>

theorem failed_tile_aborts_without_output:
  assumes "get_json env url = (evs0, Inr data)"
    and "get_highest_level data = Inr lv"
    and "t \<in> set (level_tiles lv)"
    and "tile_raster env t = Inl e"
  shows "\<exists>evs err. download_image env url = (evs, Inl err) \<and>
      saved_files evs = [] \<and> saved_images evs = []"
proof -
  obtain n where n: "(n, t) \<in> set (enumerate 0 (level_tiles lv))"
    using in_set_enumerate [OF assms(3)] by blast
  have no_loop: "tile_loop env url (enumerate 0 (level_tiles lv)) st \<noteq> (evs1, Inr st')"
    for st evs1 st'
    using tile_loop_fails [OF n assms(4), where url = url and st = st] by auto
  obtain evs r where run: "download_image env url = (Get (rstrip CHR ''/'' url @ ''/tiles.json'') # evs, r)"
    and cases: "(\<exists>e. r = Inl e) \<and> saved_files evs = [] \<and> saved_images evs = [] \<or>
      (\<exists>evs0 data lv c evs1 st g.
          get_json env url = (evs0, Inr data) \<and> get_highest_level data = Inr lv \<and>
          Image_new env (level_width lv, level_height lv) = Inr c \<and>
          tile_loop env url (enumerate 0 (level_tiles lv)) \<lparr>img = c, cell = None, ident = None\<rparr> =
            (evs1, Inr st) \<and>
          re_search url = Some g \<and>
          saved_files evs = [''slsa-'' @ slugify env g @ ''.jpg''] \<and>
          saved_images evs = [img st])"
    using download_image_shape [of env url] by (elim exE conjE)
  have "(\<exists>e. r = Inl e) \<and> saved_files evs = [] \<and> saved_images evs = []"
    using cases assms(1,2) no_loop by auto
  then show ?thesis using run by auto
qed

theorem failed_tile_aborts_without_output_witness:
  "\<exists>evs err. download_image (ex_env ex_desc_down) ''https://host/resource/B+43122'' = (evs, Inl err) \<and>
      saved_files evs = [] \<and> saved_images evs = []"
proof -
  have lv: "get_highest_level ex_desc_down = Inr ex_level_down"
    by (simp add: get_highest_level_def ex_desc_down_def ex_level_down_def)
  have t: "ex_tile ''down'' 1 1 \<in> set (level_tiles ex_level_down)"
    by (simp add: ex_level_down_def)
  show ?thesis
    by (rule failed_tile_aborts_without_output [OF ex_get_json lv t ex_tile_raster_down])
qed

text \<open>
  C4 as stated fails for a fetch that is answered with a status other than 2xx: a level
  whose only tile is answered 404 with a placeholder picture is saved.
\<close>

theorem placeholder_tile_is_saved_counterexample:
  "requests_get (ex_env ex_desc_placeholder) ''missing'' = Inr \<lparr>status_code = 404, content = [9]\<rparr> \<and>
   snd (download_image (ex_env ex_desc_placeholder) ''https://host/resource/B+43122'') = Inr () \<and>
   saved_files (fst (download_image (ex_env ex_desc_placeholder) ''https://host/resource/B+43122'')) =
     [''slsa-b-43122.jpg'']"
  by (simp add: ex_run_defs ex_desc_placeholder_def)

text \<open>
  C6, as the code has it. A tile request on which the transport raises ends the loop at
  once with that very error; in a run of \<open>download_image\<close> it is the last event, and its
  error is the error of the run. A response, whatever its status code, is no failure of
  the fetch: the loop body never reads \<^verbatim>\<open>status_code\<close> and hands the body to the decoder
  exactly as it would for status 200.
\<close>

theorem transport_error_aborts_reconstruction:
  assumes "requests_get env u = Inl e"
  shows "(\<forall>n (t::tile) its st. tile_url t = u \<longrightarrow>
            tile_loop env url ((n, t) # its) st = ([Get u], Inl e)) \<and>
     (\<forall>evs r k. download_image env url = (evs, r) \<and> 0 < k \<and> k < length evs \<and> evs ! k = Get u
        \<longrightarrow> r = Inl e \<and> length evs = Suc k) \<and>
     (\<forall>(t::tile) r n st. requests_get env (tile_url t) = Inr r \<longrightarrow>
        tile_step env url st (n, t) =
        tile_step
          (env\<lparr>requests_get := (requests_get env)(tile_url t := Inr (r\<lparr>status_code := 200\<rparr>))\<rparr>)
          url st (n, t))"
proof (intro conjI allI impI)
  fix n and t :: tile and its st
  assume "tile_url t = u"
  then show "tile_loop env url ((n, t) # its) st = ([Get u], Inl e)"
    using tile_step_transport_error [of env t e url st n] assms by simp
next
  fix evs r k
  assume a: "download_image env url = (evs, r) \<and> 0 < k \<and> k < length evs \<and> evs ! k = Get u"
  then show "r = Inl e" "length evs = Suc k"
    using download_image_failed_request [of env url evs r k u e] assms by simp_all
next
  fix t :: tile and r n st
  assume "requests_get env (tile_url t) = Inr r"
  then show "tile_step env url st (n, t) =
        tile_step
          (env\<lparr>requests_get := (requests_get env)(tile_url t := Inr (r\<lparr>status_code := 200\<rparr>))\<rparr>)
          url st (n, t)"
    by (rule tile_step_ignores_status)
qed

theorem transport_error_aborts_reconstruction_witness:
  "download_image (ex_env ex_desc_down) ''https://host/resource/B+43122'' =
     ([Get ''https://host/resource/B+43122/tiles.json'', Get ''t1'', Get ''t2'', Get ''t3'',
       Get ''down''], Inl (RequestException ''down'')) \<and>
   tile_step (ex_env ex_desc_down) ''https://host/resource/B+43122''
       (init_locals \<lparr>size_w = 100, size_h = 100, px = (\<lambda>i j. (0, 0, 0))\<rparr>) (0, ex_tile ''missing'' 1 0) =
     tile_step
       ((ex_env ex_desc_down)\<lparr>requests_get :=
          (requests_get (ex_env ex_desc_down))
            (tile_url (ex_tile ''missing'' 1 0) := Inr (\<lparr>status_code = 404, content = [9]\<rparr>\<lparr>status_code := 200\<rparr>))\<rparr>)
       ''https://host/resource/B+43122''
       (init_locals \<lparr>size_w = 100, size_h = 100, px = (\<lambda>i j. (0, 0, 0))\<rparr>) (0, ex_tile ''missing'' 1 0)"
proof -
  let ?url = "''https://host/resource/B+43122''"
  let ?evs = "[Get ''https://host/resource/B+43122/tiles.json'', Get ''t1'', Get ''t2'', Get ''t3'',
       Get ''down'']"
  have down: "requests_get (ex_env ex_desc_down) ''down'' = Inl (RequestException ''down'')"
    by (simp add: ex_env_def ex_get_def suffix_def)
  have missing: "requests_get (ex_env ex_desc_down) (tile_url (ex_tile ''missing'' 1 0)) =
      Inr \<lparr>status_code = 404, content = [9]\<rparr>"
    by (simp add: ex_env_def ex_get_def ex_tile_def suffix_def)
  have trace: "fst (download_image (ex_env ex_desc_down) ?url) = ?evs"
    by (simp add: ex_run_defs ex_desc_down_def ex_level_down_def)
  then obtain r where run: "download_image (ex_env ex_desc_down) ?url = (?evs, r)"
    by (cases "download_image (ex_env ex_desc_down) ?url") simp
  note inst = transport_error_aborts_reconstruction [OF down, of ?url]
  have "r = Inl (RequestException ''down'')"
    using inst run by (elim conjE allE [of _ ?evs] allE [of _ r] allE [of _ 4]) simp
  moreover have "tile_step (ex_env ex_desc_down) ?url
       (init_locals \<lparr>size_w = 100, size_h = 100, px = (\<lambda>i j. (0, 0, 0))\<rparr>) (0, ex_tile ''missing'' 1 0) =
     tile_step
       ((ex_env ex_desc_down)\<lparr>requests_get :=
          (requests_get (ex_env ex_desc_down))
            (tile_url (ex_tile ''missing'' 1 0) := Inr (\<lparr>status_code = 404, content = [9]\<rparr>\<lparr>status_code := 200\<rparr>))\<rparr>)
       ?url
       (init_locals \<lparr>size_w = 100, size_h = 100, px = (\<lambda>i j. (0, 0, 0))\<rparr>) (0, ex_tile ''missing'' 1 0)"
    using inst missing by blast
  ultimately show ?thesis using run by simp
qed

text \<open>
  C6 as stated fails: a tile answered with status 404 and a decodable body is pasted and
  the image is saved.
\<close>

theorem non_2xx_body_is_decoded_counterexample:
  "requests_get (ex_env ex_desc_404) ''missing'' = Inr \<lparr>status_code = 404, content = [9]\<rparr> \<and>
   snd (download_image (ex_env ex_desc_404) ''https://host/resource/B+43122'') = Inr () \<and>
   requested (fst (download_image (ex_env ex_desc_404) ''https://host/resource/B+43122'')) =
     [''https://host/resource/B+43122/tiles.json'', ''t1'', ''missing''] \<and>
   saved_files (fst (download_image (ex_env ex_desc_404) ''https://host/resource/B+43122'')) =
     [''slsa-b-43122.jpg''] \<and>
   px (hd (saved_images (fst (download_image (ex_env ex_desc_404) ''https://host/resource/B+43122''))))
     60 10 = (10, 10, 9)"
  by (simp add: ex_run_defs ex_desc_404_def clip_copy_def)

text \<open>
  C10. When the selected level has no tile, \<open>download_image\<close> never calls \<^verbatim>\<open>img.save\<close>: it
  fails after the descriptor request, and whenever \<^verbatim>\<open>Image.new\<close> returned the canvas the
  error is the \<^verbatim>\<open>UnboundLocalError\<close> of \<^verbatim>\<open>id\<close>, which only the loop body assigns.
\<close>

theorem empty_level_saves_nothing:
  assumes "get_json env url = (evs0, Inr data)"
    and "get_highest_level data = Inr lv"
    and "level_tiles lv = []"
  shows "\<exists>err. download_image env url = (evs0, Inl err) \<and>
      saved_files evs0 = [] \<and> saved_images evs0 = [] \<and>
      ((\<exists>c. Image_new env (level_width lv, level_height lv) = Inr c) \<longrightarrow>
         err = UnboundLocalError ''id'')"
proof -
  have e0: "evs0 = [Get (rstrip CHR ''/'' url @ ''/tiles.json'')]"
    using get_json_events [of env url] assms(1) by simp
  show ?thesis
  proof (cases "Image_new env (level_width lv, level_height lv)")
    case (Inl e')
    then show ?thesis
      using assms e0 by (simp add: download_image_def)
  next
    case (Inr c)
    then show ?thesis
      using assms e0 by (simp add: download_image_def)
  qed
qed

theorem empty_level_saves_nothing_witness:
  "download_image (ex_env ex_desc_empty) ''https://host/resource/B+43122'' =
     ([Get ''https://host/resource/B+43122/tiles.json''], Inl (UnboundLocalError ''id''))"
proof -
  have lv: "get_highest_level ex_desc_empty = Inr ex_level_empty"
    by (simp add: get_highest_level_def ex_desc_empty_def ex_level_empty_def)
  have ts: "level_tiles ex_level_empty = []"
    by (simp add: ex_level_empty_def)
  have new: "\<exists>c. Image_new (ex_env ex_desc_empty) (level_width ex_level_empty, level_height ex_level_empty) = Inr c"
    by (simp add: ex_level_empty_def ex_Image_new)
  show ?thesis
    using empty_level_saves_nothing [OF ex_get_json lv ts] new by auto
qed

section \<open>The identifier and the output file\<close>

text \<open>
  C5, as the code has it. A URL without \<^verbatim>\<open>resource/\<close> makes \<open>download_image\<close> fail and
  save nothing, but not before the network is used: the descriptor request has been made
  when the failure surfaces.
\<close>

theorem unmatched_url_fails_after_descriptor_request:
  assumes "re_search url = None"
  shows "\<exists>evs err. download_image env url =
        (Get (rstrip CHR ''/'' url @ ''/tiles.json'') # evs, Inl err) \<and>
      saved_files evs = [] \<and> saved_images evs = []"
  using download_image_shape [of env url] assms by auto

theorem unmatched_url_fails_after_descriptor_request_witness:
  "\<exists>evs err. download_image (ex_env ex_desc4) ''https://host/item/1'' =
        (Get ''https://host/item/1/tiles.json'' # evs, Inl err) \<and>
      saved_files evs = [] \<and> saved_images evs = []"
proof -
  have "re_search ''https://host/item/1'' = None" by simp
  from unmatched_url_fails_after_descriptor_request [OF this, of "ex_env ex_desc4"]
  show ?thesis by (simp add: rstrip_def)
qed

text \<open>
  C5 as stated fails: for a URL without \<^verbatim>\<open>resource/\<close> the descriptor and the first tile
  are requested before the \<^verbatim>\<open>AttributeError\<close> of \<^verbatim>\<open>.group\<close> on \<^verbatim>\<open>None\<close>.
\<close>

theorem validation_after_network_counterexample:
  "re_search ''https://host/item/1'' = None \<and>
   download_image (ex_env ex_desc4) ''https://host/item/1'' =
     ([Get ''https://host/item/1/tiles.json'', Get ''t1''], Inl AttributeError)"
  by (simp add: ex_run_defs ex_desc4_def ex_level4_def ex_level_small_def ex_tiles4_def)



section \<open>Level selection\<close>

lemma get_highest_level_loop_skip:
  "\<forall>l\<in>set pre. level_name l \<noteq> ''z0'' \<Longrightarrow>
   get_highest_level_loop (pre @ ls) hz = get_highest_level_loop ls hz"
  by (induction pre) simp_all

text \<open>
  C2. When the level collection contains a level named \<^verbatim>\<open>z0\<close>, wherever it stands among
  the levels (any levels before it, none of them named \<^verbatim>\<open>z0\<close>, and any levels after it),
  \<open>get_highest_level\<close> returns exactly that level.
\<close>

theorem get_highest_level_returns_z0:
  assumes "levels data = pre @ l # post"
    and "level_name l = ''z0''"
    and "\<forall>l'\<in>set pre. level_name l' \<noteq> ''z0''"
  shows "get_highest_level data = Inr l"
  using assms by (simp add: get_highest_level_def get_highest_level_loop_skip)

theorem get_highest_level_returns_z0_witness:
  "get_highest_level ex_desc4 = Inr ex_level4 \<and> level_name ex_level4 = ''z0''"
proof -
  have l: "levels ex_desc4 = [ex_level_small] @ ex_level4 # []"
    by (simp add: ex_desc4_def)
  have n: "level_name ex_level4 = ''z0''"
    by (simp add: ex_level4_def)
  have p: "\<forall>l'\<in>set [ex_level_small]. level_name l' \<noteq> ''z0''"
    by (simp add: ex_level_small_def)
  show ?thesis
    using get_highest_level_returns_z0 [OF l n p] n by simp
qed

lemma get_highest_level_loop_none:
  "\<forall>l\<in>set ls. level_name l \<noteq> ''z0'' \<Longrightarrow> get_highest_level_loop ls hz = hz"
  by (induction ls) simp_all

text \<open>
  C3, as the code has it. When no level of the descriptor is named \<^verbatim>\<open>z0\<close>,
  \<open>get_highest_level\<close> returns no level at all: it raises, at \<^verbatim>\<open>return highest_zoom\<close>, the
  \<^verbatim>\<open>UnboundLocalError\<close> of the local that the loop never assigned.
\<close>

theorem get_highest_level_without_z0_raises:
  assumes "\<forall>l\<in>set (levels data). level_name l \<noteq> ''z0''"
  shows "get_highest_level data = Inl (UnboundLocalError ''highest_zoom'')"
  using assms by (simp add: get_highest_level_def get_highest_level_loop_none)

theorem get_highest_level_without_z0_raises_witness:
  "get_highest_level ex_desc_no_z0 = Inl (UnboundLocalError ''highest_zoom'')"
proof -
  have "\<forall>l\<in>set (levels ex_desc_no_z0). level_name l \<noteq> ''z0''"
    by (simp add: ex_desc_no_z0_def ex_level_small_def)
  then show ?thesis
    by (rule get_highest_level_without_z0_raises)
qed

text \<open>
  C3 as stated fails: the error is no dedicated \<^verbatim>\<open>LevelNotFoundError\<close> but an
  \<^verbatim>\<open>UnboundLocalError\<close>, the class of exception that \<open>download_image\<close> also raises for a
  level without tiles.
\<close>

theorem missing_level_error_counterexample:
  "get_highest_level ex_desc_no_z0 = Inl (UnboundLocalError ''highest_zoom'') \<and>
   snd (download_image (ex_env ex_desc_empty) ''https://host/resource/X+1'') =
     Inl (UnboundLocalError ''id'')"
  by (simp add: ex_run_defs ex_desc_no_z0_def ex_level_small_def ex_desc_empty_def ex_level_empty_def)

end
